theory Spec2Isabelle
  imports Complex_Main
begin

section \<open>Session replay page: numbers\<close>

text \<open>
  The replay page (\<^verbatim>\<open>routes/replay/[id]/+page.svelte\<close>) computes with JavaScript
  numbers. A number is modelled as a real, or \<open>NaN\<close>: the value a field that is absent
  from the JSON (\<^verbatim>\<open>undefined\<close>) turns into under arithmetic. Rounding of binary64
  and the two infinities are not represented.
\<close>

datatype jsnum = NaN | Num real

fun jadd :: "jsnum \<Rightarrow> jsnum \<Rightarrow> jsnum" where
  "jadd (Num x) (Num y) = Num (x + y)"
| "jadd _ _ = NaN"

fun jsub :: "jsnum \<Rightarrow> jsnum \<Rightarrow> jsnum" where
  "jsub (Num x) (Num y) = Num (x - y)"
| "jsub _ _ = NaN"

fun jmul :: "jsnum \<Rightarrow> jsnum \<Rightarrow> jsnum" where
  "jmul (Num x) (Num y) = Num (x * y)"
| "jmul _ _ = NaN"

text \<open>
  \<^verbatim>\<open>x / 0\<close> is an infinity (or \<open>NaN\<close> for \<open>0 / 0\<close>) in JavaScript; the model has
  no infinity and gives \<open>NaN\<close>. No division of the page has a zero divisor: see
  \<open>fraction_divisor_nonzero\<close> below for the only one that is not a constant.
\<close>

fun jdiv :: "jsnum \<Rightarrow> jsnum \<Rightarrow> jsnum" where
  "jdiv (Num x) (Num y) = (if y = 0 then NaN else Num (x / y))"
| "jdiv _ _ = NaN"

text \<open>The operator \<^verbatim>\<open>%\<close>: the quotient is truncated towards zero, so the
  result has the sign of the dividend.\<close>

definition trunc :: "real \<Rightarrow> int" where
  "trunc r = (if 0 \<le> r then \<lfloor>r\<rfloor> else \<lceil>r\<rceil>)"

fun jrem :: "jsnum \<Rightarrow> jsnum \<Rightarrow> jsnum" where
  "jrem (Num x) (Num y) = (if y = 0 then NaN else Num (x - y * of_int (trunc (x / y))))"
| "jrem _ _ = NaN"

text \<open>Every comparison with \<open>NaN\<close> is false.\<close>

fun jlt :: "jsnum \<Rightarrow> jsnum \<Rightarrow> bool" where
  "jlt (Num x) (Num y) = (x < y)"
| "jlt _ _ = False"

fun jle :: "jsnum \<Rightarrow> jsnum \<Rightarrow> bool" where
  "jle (Num x) (Num y) = (x \<le> y)"
| "jle _ _ = False"

definition jgt :: "jsnum \<Rightarrow> jsnum \<Rightarrow> bool" where
  "jgt a b = jlt b a"

definition jge :: "jsnum \<Rightarrow> jsnum \<Rightarrow> bool" where
  "jge a b = jle b a"

text \<open>A field read from an event: absent is \<^verbatim>\<open>undefined\<close>, which converts to
  \<open>NaN\<close> wherever a number is needed.\<close>

fun tonum :: "real option \<Rightarrow> jsnum" where
  "tonum None = NaN"
| "tonum (Some x) = Num x"

section \<open>Data\<close>

text \<open>
  The interface \<^verbatim>\<open>Aircraft\<close>. Its numbers are \<open>jsnum\<close>: the records the page
  computes can hold \<open>NaN\<close> (when a snapshot has no \<^verbatim>\<open>game_time\<close>). The index signature
  \<^verbatim>\<open>[key: string]: unknown\<close> is the field \<open>extra\<close>: the other keys of the object
  with their values as text.
\<close>

record aircraft =
  callsign :: string
  position :: "jsnum \<times> jsnum"
  altitude :: jsnum
  heading :: jsnum
  speed :: jsnum
  phase :: "string option"
  extra :: "(string \<times> string) list"

text \<open>
  An event is an object of type \<^verbatim>\<open>any\<close>; the record has the fields the page
  reads, each \<open>None\<close> when the key is absent. The fields \<^verbatim>\<open>aircraft\<close> and
  \<^verbatim>\<open>callsign\<close> of an event are \<open>ev_aircraft\<close> and \<open>ev_callsign\<close> here, the
  plain names being taken by the interface above.
\<close>

record event =
  event_type :: "string option"
  game_time :: "real option"
  ev_aircraft :: "aircraft list option"
  aircraft1 :: "string option"
  aircraft2 :: "string option"
  ev_callsign :: "string option"
  runway :: "string option"

section \<open>Derived views of the event list\<close>

text \<open>\<^verbatim>\<open>e.game_time || 0\<close>: absent and \<open>0\<close> are falsy.\<close>

definition game_time_or_0 :: "event \<Rightarrow> real" where
  "game_time_or_0 e = (case game_time e of None \<Rightarrow> 0 | Some x \<Rightarrow> (if x = 0 then 0 else x))"

definition maxTime :: "event list \<Rightarrow> real" where
  "maxTime events =
     (if length events > 0
      then (let ts = map game_time_or_0 events in fold max (tl ts) (hd ts))
      else 0)"

definition snapshots :: "event list \<Rightarrow> event list" where
  "snapshots events = filter (\<lambda>e. event_type e = Some ''state_snapshot'') events"

definition conflicts :: "event list \<Rightarrow> event list" where
  "conflicts events = filter (\<lambda>e. event_type e = Some ''conflict'') events"

text \<open>The page writes this filter inline, where it builds the markers.\<close>

definition ils_clearances :: "event list \<Rightarrow> event list" where
  "ils_clearances events = filter (\<lambda>ev. event_type ev = Some ''ils_clearance'') events"

section \<open>Interpolation\<close>

definition interpolateAngle :: "jsnum \<Rightarrow> jsnum \<Rightarrow> jsnum \<Rightarrow> jsnum" where
  "interpolateAngle a b t =
     (let diff = jsub b a;
          diff = (if jgt diff (Num 180) then jsub diff (Num 360) else diff);
          diff = (if jlt diff (Num (- 180)) then jadd diff (Num 360) else diff)
      in jrem (jadd (jadd a (jmul diff t)) (Num 360)) (Num 360))"

text \<open>
  A \<^verbatim>\<open>Map\<close> keeps its keys in insertion order; \<^verbatim>\<open>set\<close> on a key that is
  present replaces the value and leaves the key where it is. \<^verbatim>\<open>new Map(entries)\<close>
  sets the entries one after the other.
\<close>

type_synonym ('k, 'v) jsmap = "('k \<times> 'v) list"

fun map_set :: "('k, 'v) jsmap \<Rightarrow> 'k \<Rightarrow> 'v \<Rightarrow> ('k, 'v) jsmap" where
  "map_set [] k v = [(k, v)]"
| "map_set ((k', v') # m) k v = (if k' = k then (k, v) # m else (k', v') # map_set m k v)"

definition new_Map :: "('k \<times> 'v) list \<Rightarrow> ('k, 'v) jsmap" where
  "new_Map entries = foldl (\<lambda>m (k, v). map_set m k v) [] entries"

definition map_get :: "('k, 'v) jsmap \<Rightarrow> 'k \<Rightarrow> 'v option" where
  "map_get m k = map_of m k"

text \<open>
  The search for the bracketing snapshots. The page compares the two snapshots it found
  with \<^verbatim>\<open>===\<close>, which on objects is identity; the snapshots of the array are
  distinct objects, so the loop carries their indices: \<open>before_i\<close> and \<open>after_i\<close>
  are the positions of \<^verbatim>\<open>before\<close> and \<^verbatim>\<open>after\<close> in the array.
\<close>

definition bracket_step :: "event list \<Rightarrow> real \<Rightarrow> nat \<times> nat \<Rightarrow> nat \<Rightarrow> nat \<times> nat" where
  "bracket_step snaps time ba i =
     (let snap = snaps ! i;
          before_i = (if jle (tonum (game_time snap)) (Num time) then i else fst ba);
          after_i = (if jge (tonum (game_time snap)) (Num time)
                        \<and> jlt (tonum (game_time (snaps ! snd ba))) (Num time)
                     then i else snd ba)
      in (before_i, after_i))"

definition bracket :: "event list \<Rightarrow> real \<Rightarrow> nat \<times> nat" where
  "bracket snaps time = foldl (bracket_step snaps time) (0, 0) [0..<length snaps]"

text \<open>The body of the loop over \<^verbatim>\<open>beforeMap\<close>.\<close>

definition interpolate_one :: "(string, aircraft) jsmap \<Rightarrow> jsnum \<Rightarrow> string \<times> aircraft \<Rightarrow> aircraft" where
  "interpolate_one afterMap t entry =
     (let beforeAc = snd entry in
      case map_get afterMap (fst entry) of
        Some afterAc \<Rightarrow>
          beforeAc\<lparr>
            altitude := jadd (altitude beforeAc) (jmul (jsub (altitude afterAc) (altitude beforeAc)) t),
            heading := interpolateAngle (heading beforeAc) (heading afterAc) t,
            speed := jadd (speed beforeAc) (jmul (jsub (speed afterAc) (speed beforeAc)) t),
            position :=
              (jadd (fst (position beforeAc))
                 (jmul (jsub (fst (position afterAc)) (fst (position beforeAc))) t),
               jadd (snd (position beforeAc))
                 (jmul (jsub (snd (position afterAc)) (snd (position beforeAc))) t))\<rparr>
      | None \<Rightarrow> beforeAc)"

definition interpolate_aircraft :: "aircraft list \<Rightarrow> aircraft list \<Rightarrow> jsnum \<Rightarrow> aircraft list" where
  "interpolate_aircraft bs as t =
     (let beforeMap = new_Map (map (\<lambda>a. (callsign a, a)) bs);
          afterMap = new_Map (map (\<lambda>a. (callsign a, a)) as)
      in map (interpolate_one afterMap t) beforeMap)"

text \<open>\<^verbatim>\<open>before.aircraft || []\<close>: an array, even an empty one, is truthy.\<close>

definition aircraft_or_empty :: "event \<Rightarrow> aircraft list" where
  "aircraft_or_empty e = (case ev_aircraft e of None \<Rightarrow> [] | Some acs \<Rightarrow> acs)"

text \<open>
  \<^verbatim>\<open>currentAircraft\<close>, as a function of the snapshots and the cursor it is derived
  from. The last case of the inner \<open>case\<close> is never reached: the test before it has
  returned when one of the two lists is absent.
\<close>

definition fraction :: "real \<Rightarrow> event \<Rightarrow> event \<Rightarrow> jsnum" where
  "fraction time before_s after_s =
     jdiv (jsub (Num time) (tonum (game_time before_s)))
          (jsub (tonum (game_time after_s)) (tonum (game_time before_s)))"

definition currentAircraft :: "event list \<Rightarrow> real \<Rightarrow> aircraft list" where
  "currentAircraft snaps time =
     (if length snaps = 0 then []
      else
        let (before_i, after_i) = bracket snaps time;
            before_s = snaps ! before_i;
            after_s = snaps ! after_i
        in if before_i = after_i \<or> ev_aircraft before_s = None \<or> ev_aircraft after_s = None
              \<or> game_time before_s = game_time after_s
           then aircraft_or_empty before_s
           else
             (case (ev_aircraft before_s, ev_aircraft after_s) of
                (Some bs, Some as) \<Rightarrow> interpolate_aircraft bs as (fraction time before_s after_s)
              | _ \<Rightarrow> aircraft_or_empty before_s))"

section \<open>Timeline markers\<close>

record marker =
  time :: "real option"
  type :: string
  label :: string

text \<open>A template literal prints an absent field as \<^verbatim>\<open>undefined\<close>.\<close>

definition str_of :: "string option \<Rightarrow> string" where
  "str_of v = (case v of None \<Rightarrow> ''undefined'' | Some s \<Rightarrow> s)"

definition conflict_marker :: "event \<Rightarrow> marker" where
  "conflict_marker c =
     \<lparr>time = game_time c, type = ''conflict'',
      label = ''Conflict: '' @ str_of (aircraft1 c) @ '' / '' @ str_of (aircraft2 c)\<rparr>"

text \<open>The arrow of the label (U+2192) is written as its three bytes in UTF-8.\<close>

definition ils_marker :: "event \<Rightarrow> marker" where
  "ils_marker e =
     \<lparr>time = game_time e, type = ''ils'',
      label = ''ILS: '' @ str_of (ev_callsign e) @ '' '' @ [CHR 0xE2, CHR 0x86, CHR 0x92]
                @ '' '' @ str_of (runway e)\<rparr>"

definition by_time :: "marker \<Rightarrow> marker \<Rightarrow> jsnum" where
  "by_time a b = jsub (tonum (time a)) (tonum (time b))"

text \<open>
  \<^verbatim>\<open>Array.prototype.sort\<close> with a comparison function. The language fixes its
  result when the comparison is consistent: the elements in ascending order, equal ones
  in their order of the input (the sort is stable); a comparison result of \<open>NaN\<close>
  counts as \<open>0\<close>. The model is the insertion sort with these properties. Where the
  comparison is not consistent (here: a marker without a time) the language leaves the
  order to the engine, and the model is one of the allowed orders.
\<close>

fun sort_insert :: "('a \<Rightarrow> 'a \<Rightarrow> jsnum) \<Rightarrow> 'a \<Rightarrow> 'a list \<Rightarrow> 'a list" where
  "sort_insert cmp x [] = [x]"
| "sort_insert cmp x (y # ys) =
     (if jgt (cmp x y) (Num 0) then y # sort_insert cmp x ys else x # y # ys)"

definition array_sort :: "('a \<Rightarrow> 'a \<Rightarrow> jsnum) \<Rightarrow> 'a list \<Rightarrow> 'a list" where
  "array_sort cmp xs = foldr (sort_insert cmp) xs []"

definition unsorted_markers :: "event list \<Rightarrow> marker list" where
  "unsorted_markers events =
     map conflict_marker (conflicts events) @ map ils_marker (ils_clearances events)"

definition timelineEvents :: "event list \<Rightarrow> marker list" where
  "timelineEvents events = array_sort by_time (unsorted_markers events)"

section \<open>Page state, loading and playback\<close>

text \<open>
  The state of one replay page: its \<^verbatim>\<open>$state\<close> variables and the two plain
  variables of the playback loop. The last two fields are the browser's side of
  \<^verbatim>\<open>requestAnimationFrame\<close>: the handles of the callbacks that are requested and
  have neither run nor been cancelled, and the next handle to hand out (handles are
  positive).
\<close>

record replay =
  events :: "event list"
  loading :: bool
  error :: "string option"
  playing :: bool
  currentTime :: real
  playbackSpeed :: real
  animationFrame :: "nat option"
  lastRealTime :: "real option"
  frame_requests :: "nat list"
  next_handle :: nat

text \<open>
  What \<^verbatim>\<open>fetch\<close> and \<^verbatim>\<open>res.json()\<close> can deliver: a rejection with a thrown
  value, or a response with its \<^verbatim>\<open>ok\<close> flag, its \<^verbatim>\<open>statusText\<close> and a body.
  The body fails to parse (\<open>JsonThrows\<close>), or parses to \<^verbatim>\<open>null\<close> (\<open>JsonNull\<close>), or
  parses to another value (\<open>JsonData\<close>), which has a list under the key
  \<^verbatim>\<open>events\<close> or has nothing there: the key is absent, its value is falsy, or the body
  is a number, a string or a boolean. Reading \<^verbatim>\<open>data.events\<close> of \<^verbatim>\<open>null\<close> throws a
  \<^verbatim>\<open>TypeError\<close> inside the \<^verbatim>\<open>try\<close>; the engine words its message, which is the
  string of \<open>JsonNull\<close>.
\<close>

datatype thrown = ErrorObj string | NotAnError

datatype body = JsonThrows thrown | JsonNull string | JsonData "event list option"

datatype fetch_outcome = Rejected thrown | Response bool string body

text \<open>\<^verbatim>\<open>e instanceof Error ? e.message : 'Unknown error'\<close>\<close>

fun message :: "thrown \<Rightarrow> string" where
  "message (ErrorObj m) = m"
| "message NotAnError = ''Unknown error''"

definition caught :: "thrown \<Rightarrow> replay \<Rightarrow> replay" where
  "caught e s = s\<lparr>error := Some (message e), events := []\<rparr>"

definition fetchEvents :: "fetch_outcome \<Rightarrow> replay \<Rightarrow> replay" where
  "fetchEvents outcome s =
     (let s1 = s\<lparr>loading := True, error := None\<rparr>;
          s2 = (case outcome of
                  Rejected e \<Rightarrow> caught e s1
                | Response ok statusText b \<Rightarrow>
                    if \<not> ok then caught (ErrorObj (''Failed to load session: '' @ statusText)) s1
                    else (case b of
                            JsonThrows e \<Rightarrow> caught e s1
                          | JsonNull m \<Rightarrow> caught (ErrorObj m) s1
                          | JsonData d \<Rightarrow> s1\<lparr>events := (case d of None \<Rightarrow> [] | Some evs \<Rightarrow> evs)\<rparr>))
      in s2\<lparr>loading := False\<rparr>)"

definition requestAnimationFrame :: "replay \<Rightarrow> nat \<times> replay" where
  "requestAnimationFrame s =
     (next_handle s,
      s\<lparr>frame_requests := frame_requests s @ [next_handle s], next_handle := Suc (next_handle s)\<rparr>)"

definition cancelAnimationFrame :: "nat \<Rightarrow> replay \<Rightarrow> replay" where
  "cancelAnimationFrame h s = s\<lparr>frame_requests := removeAll h (frame_requests s)\<rparr>"

text \<open>\<^verbatim>\<open>if (animationFrame)\<close>: \<^verbatim>\<open>null\<close> and \<open>0\<close> are falsy.\<close>

definition pause :: "replay \<Rightarrow> replay" where
  "pause s =
     (let s1 = s\<lparr>playing := False\<rparr> in
      case animationFrame s1 of
        None \<Rightarrow> s1
      | Some h \<Rightarrow> if h = 0 then s1 else (cancelAnimationFrame h s1)\<lparr>animationFrame := None\<rparr>)"

text \<open>\<open>now\<close> is the value of \<^verbatim>\<open>performance.now()\<close>, in milliseconds.\<close>

definition tick :: "real \<Rightarrow> replay \<Rightarrow> replay" where
  "tick now s =
     (if \<not> playing s then s
      else
        let s1 = (case lastRealTime s of
                    None \<Rightarrow> s
                  | Some prev \<Rightarrow>
                      let delta = (now - prev) / 1000;
                          s' = s\<lparr>currentTime :=
                                  min (currentTime s + delta * playbackSpeed s) (maxTime (events s))\<rparr>
                      in if currentTime s' \<ge> maxTime (events s') then pause s' else s');
            s2 = s1\<lparr>lastRealTime := Some now\<rparr>;
            (h, s3) = requestAnimationFrame s2
        in s3\<lparr>animationFrame := Some h\<rparr>)"

text \<open>\<^verbatim>\<open>play\<close> reads the clock itself and then calls \<^verbatim>\<open>tick\<close>, which reads it
  again: \<open>now1\<close> and \<open>now2\<close>.\<close>

definition play :: "real \<Rightarrow> real \<Rightarrow> replay \<Rightarrow> replay" where
  "play now1 now2 s = tick now2 (s\<lparr>playing := True, lastRealTime := Some now1\<rparr>)"

definition seek :: "real \<Rightarrow> replay \<Rightarrow> replay" where
  "seek t s = s\<lparr>currentTime := max 0 (min t (maxTime (events s)))\<rparr>"

definition handleKeydown :: "string \<Rightarrow> real \<Rightarrow> real \<Rightarrow> replay \<Rightarrow> replay" where
  "handleKeydown key now1 now2 s =
     (if key = '' '' then (if playing s then pause s else play now1 now2 s)
      else if key = ''ArrowLeft'' then seek (currentTime s - 5) s
      else if key = ''ArrowRight'' then seek (currentTime s + 5) s
      else if key = ''+'' \<or> key = ''='' then s\<lparr>playbackSpeed := min (playbackSpeed s * 2) 10\<rparr>
      else if key = ''-'' then s\<lparr>playbackSpeed := max (playbackSpeed s / 2) 0.5\<rparr>
      else s)"

text \<open>The state of a page that has just been created; a first handle of \<open>1\<close>.\<close>

definition initial_replay :: replay where
  "initial_replay =
     \<lparr>events = [], loading = True, error = None, playing = False, currentTime = 0,
      playbackSpeed = 1, animationFrame = None, lastRealTime = None,
      frame_requests = [], next_handle = 1\<rparr>"

text \<open>The browser runs the oldest requested frame callback, which is \<^verbatim>\<open>tick\<close>.\<close>

definition run_frame :: "real \<Rightarrow> replay \<Rightarrow> replay" where
  "run_frame now s =
     (case frame_requests s of
        [] \<Rightarrow> s
      | h # hs \<Rightarrow> tick now (s\<lparr>frame_requests := hs\<rparr>))"

section \<open>Auxiliary definitions for the proofs\<close>

text \<open>The difference of two headings after the two corrections of
  \<^verbatim>\<open>interpolateAngle\<close>, on numbers that are not \<open>NaN\<close>.\<close>

definition wrap_delta :: "real \<Rightarrow> real" where
  "wrap_delta d0 =
     (let d1 = (if d0 > 180 then d0 - 360 else d0) in if d1 < - 180 then d1 + 360 else d1)"

text \<open>Sample data for the concrete instances: an aircraft with a callsign, an altitude and
  a heading, and events of the kinds the page reads.\<close>

definition sample_aircraft :: "string \<Rightarrow> real \<Rightarrow> real \<Rightarrow> aircraft" where
  "sample_aircraft c alt hdg =
     \<lparr>callsign = c, position = (Num 0, Num 0), altitude = Num alt, heading = Num hdg,
      speed = Num 250, phase = None, extra = []\<rparr>"

definition snapshot_event :: "real \<Rightarrow> aircraft list \<Rightarrow> event" where
  "snapshot_event t acs =
     \<lparr>event_type = Some ''state_snapshot'', game_time = Some t, ev_aircraft = Some acs,
      aircraft1 = None, aircraft2 = None, ev_callsign = None, runway = None\<rparr>"

definition plain_event :: "string option \<Rightarrow> real option \<Rightarrow> event" where
  "plain_event ty t =
     \<lparr>event_type = ty, game_time = t, ev_aircraft = None,
      aircraft1 = None, aircraft2 = None, ev_callsign = None, runway = None\<rparr>"

definition conflict_event :: "real \<Rightarrow> string \<Rightarrow> string \<Rightarrow> event" where
  "conflict_event t a b =
     \<lparr>event_type = Some ''conflict'', game_time = Some t, ev_aircraft = None,
      aircraft1 = Some a, aircraft2 = Some b, ev_callsign = None, runway = None\<rparr>"

definition ils_event :: "real \<Rightarrow> string \<Rightarrow> string \<Rightarrow> event" where
  "ils_event t c r =
     \<lparr>event_type = Some ''ils_clearance'', game_time = Some t, ev_aircraft = None,
      aircraft1 = None, aircraft2 = None, ev_callsign = Some c, runway = Some r\<rparr>"

text \<open>A page that has loaded a list of events.\<close>

definition loaded :: "event list \<Rightarrow> replay" where
  "loaded evs = fetchEvents (Response True ''OK'' (JsonData (Some evs))) initial_replay"

definition two_snapshots :: "event list" where
  "two_snapshots =
     [snapshot_event 0 [sample_aircraft ''AC1'' 1000 350],
      snapshot_event 10 [sample_aircraft ''AC1'' 2000 10]]"

text \<open>Two snapshots and a decision recorded after the last of them.\<close>

definition late_decision_log :: "event list" where
  "late_decision_log = two_snapshots @ [plain_event (Some ''decision'') (Some 15)]"

definition short_log :: "event list" where
  "short_log = [snapshot_event 0 [], snapshot_event 1 []]"

text \<open>A page that has loaded \<open>short_log\<close>, doubled its speed with the key \<^verbatim>\<open>+\<close> and
  started to play at clock \<open>0\<close>.\<close>

definition running_at_2x :: replay where
  "running_at_2x = play 0 0 (handleKeydown ''+'' 0 0 (loaded short_log))"

text \<open>An event without \<^verbatim>\<open>event_type\<close> and a snapshot without \<^verbatim>\<open>game_time\<close>.\<close>

definition malformed_log :: "event list" where
  "malformed_log =
     [plain_event None (Some 3),
      \<lparr>event_type = Some ''state_snapshot'', game_time = None,
       ev_aircraft = Some [sample_aircraft ''AC1'' 1000 350],
       aircraft1 = None, aircraft2 = None, ev_callsign = None, runway = None\<rparr>]"

text \<open>Two snapshots of one time, with different aircraft lists.\<close>

definition equal_time_snapshots :: "event list" where
  "equal_time_snapshots =
     [snapshot_event 5 [sample_aircraft ''AC1'' 1000 350],
      snapshot_event 5 [sample_aircraft ''AC1'' 2000 10]]"

text \<open>The order of two markers by their times, both present.\<close>

definition time_le :: "marker \<Rightarrow> marker \<Rightarrow> bool" where
  "time_le a b = jle (tonum (time a)) (tonum (time b))"

section \<open>Heading interpolation\<close>

lemma trunc_nonneg: "0 \<le> r \<Longrightarrow> trunc r = \<lfloor>r\<rfloor>"
  by (simp add: trunc_def)

lemma floor_rem_bounds:
  fixes x :: real
  shows "0 \<le> x - 360 * of_int \<lfloor>x / 360\<rfloor>" and "x - 360 * of_int \<lfloor>x / 360\<rfloor> < 360"
proof -
  have "of_int \<lfloor>x / 360\<rfloor> \<le> x / 360" by (rule of_int_floor_le)
  then show "0 \<le> x - 360 * of_int \<lfloor>x / 360\<rfloor>" by simp
  have "x / 360 < of_int \<lfloor>x / 360\<rfloor> + 1" by linarith
  then show "x - 360 * of_int \<lfloor>x / 360\<rfloor> < 360" by linarith
qed

lemma scaled_delta_lower:
  fixes d t :: real
  assumes "- 180 \<le> d" "0 \<le> t" "t \<le> 1"
  shows "- 180 \<le> d * t"
proof (cases "0 \<le> d")
  case True
  then have "0 \<le> d * t" using assms by simp
  then show ?thesis by simp
next
  case False
  then have "d * 1 \<le> d * t" using assms by (intro mult_left_mono_neg) auto
  then show ?thesis using assms by simp
qed

lemma interpolateAngle_Num:
  "interpolateAngle (Num a) (Num b) (Num t) =
     Num ((a + wrap_delta (b - a) * t + 360) - 360 * of_int (trunc ((a + wrap_delta (b - a) * t + 360) / 360)))"
  by (simp add: interpolateAngle_def wrap_delta_def jgt_def Let_def)

lemma wrap_delta_lower:
  assumes "0 \<le> a" "a < 360" "0 \<le> b" "b < 360"
  shows "- 180 \<le> wrap_delta (b - a)"
  using assms by (simp add: wrap_delta_def Let_def)

lemma interpolateAngle_range:
  fixes a b t :: real
  assumes "0 \<le> a" "a < 360" "0 \<le> b" "b < 360" "0 \<le> t" "t \<le> 1"
  shows "let d = wrap_delta (b - a); x = a + d * t + 360; r = x - 360 * of_int \<lfloor>x / 360\<rfloor>
         in interpolateAngle (Num a) (Num b) (Num t) = Num r \<and> 0 \<le> r \<and> r < 360"
proof -
  have "- 180 \<le> wrap_delta (b - a) * t"
    using wrap_delta_lower[OF assms(1-4)] assms(5,6) by (rule scaled_delta_lower)
  then have "0 \<le> (a + wrap_delta (b - a) * t + 360) / 360" using assms(1) by simp
  then have "trunc ((a + wrap_delta (b - a) * t + 360) / 360) = \<lfloor>(a + wrap_delta (b - a) * t + 360) / 360\<rfloor>"
    by (rule trunc_nonneg)
  then show ?thesis
    using floor_rem_bounds[of "a + wrap_delta (b - a) * t + 360"]
    by (simp add: interpolateAngle_Num Let_def)
qed

section \<open>The bracketing snapshots\<close>

lemma jge_jlt_False: "jge x y \<Longrightarrow> jlt x y \<Longrightarrow> False"
  by (cases x; cases y) (auto simp: jge_def)

text \<open>The divisor of the interpolation fraction is never \<open>0\<close>.\<close>

lemma fraction_divisor_nonzero:
  "game_time before_s \<noteq> game_time after_s \<Longrightarrow>
     jsub (tonum (game_time after_s)) (tonum (game_time before_s)) \<noteq> Num 0"
  by (cases "game_time before_s"; cases "game_time after_s") auto

lemma bracket_prefix_Suc:
  "foldl (bracket_step snaps T) (0, 0) [0..<Suc k] =
     bracket_step snaps T (foldl (bracket_step snaps T) (0, 0) [0..<k]) k"
  by simp

lemma before_char:
  fixes snaps T
  defines "le \<equiv> \<lambda>i. jle (tonum (game_time (snaps ! i))) (Num T)"
  defines "loop \<equiv> \<lambda>k. foldl (bracket_step snaps T) (0, 0) [0..<k]"
  shows "if \<exists>i<k. le i
         then fst (loop k) < k \<and> le (fst (loop k)) \<and> (\<forall>j. fst (loop k) < j \<and> j < k \<longrightarrow> \<not> le j)
         else fst (loop k) = 0"
proof (induction k)
  case 0
  show ?case by (simp add: loop_def)
next
  case (Suc k)
  have step: "fst (loop (Suc k)) = (if le k then k else fst (loop k))"
    by (simp add: loop_def le_def bracket_step_def Let_def)
  show ?case
  proof (cases "le k")
    case True
    then show ?thesis using step by auto
  next
    case False
    then have eq: "fst (loop (Suc k)) = fst (loop k)" using step by simp
    have ex: "(\<exists>i<Suc k. le i) = (\<exists>i<k. le i)"
      using False less_Suc_eq by auto
    show ?thesis
    proof (cases "\<exists>i<k. le i")
      case True
      with Suc have "fst (loop k) < k \<and> le (fst (loop k)) \<and> (\<forall>j. fst (loop k) < j \<and> j < k \<longrightarrow> \<not> le j)"
        by simp
      with False show ?thesis unfolding eq ex using True less_Suc_eq by auto
    next
      case F2: False
      with Suc have "fst (loop k) = 0" by simp
      moreover have "\<not> (\<exists>i<Suc k. le i)" using F2 ex by simp
      ultimately show ?thesis using eq by simp
    qed
  qed
qed

lemma after_char:
  fixes snaps T
  defines "ge \<equiv> \<lambda>i. jge (tonum (game_time (snaps ! i))) (Num T)"
  defines "lt \<equiv> \<lambda>i. jlt (tonum (game_time (snaps ! i))) (Num T)"
  defines "loop \<equiv> \<lambda>k. foldl (bracket_step snaps T) (0, 0) [0..<k]"
  shows "if lt 0 \<and> (\<exists>i<k. ge i)
         then snd (loop k) < k \<and> ge (snd (loop k)) \<and> (\<forall>j<snd (loop k). \<not> ge j)
         else snd (loop k) = 0"
proof (induction k)
  case 0
  show ?case by (simp add: loop_def)
next
  case (Suc k)
  have step: "snd (loop (Suc k)) = (if ge k \<and> lt (snd (loop k)) then k else snd (loop k))"
    by (simp add: loop_def ge_def lt_def bracket_step_def Let_def)
  show ?case
  proof (cases "lt 0 \<and> (\<exists>i<k. ge i)")
    case True
    with Suc have IH: "snd (loop k) < k" "ge (snd (loop k))" "\<forall>j<snd (loop k). \<not> ge j"
      by simp_all
    have "\<not> lt (snd (loop k))" using IH(2) jge_jlt_False unfolding ge_def lt_def by blast
    then have "snd (loop (Suc k)) = snd (loop k)" using step by simp
    moreover have "lt 0 \<and> (\<exists>i<Suc k. ge i)" using True less_Suc_eq by auto
    ultimately show ?thesis using IH by auto
  next
    case False
    with Suc have a0: "snd (loop k) = 0" by simp
    show ?thesis
    proof (cases "lt 0")
      case F: False
      then show ?thesis using step a0 by simp
    next
      case True
      with False have none: "\<forall>i<k. \<not> ge i" by blast
      show ?thesis
      proof (cases "ge k")
        case gk: True
        then have "snd (loop (Suc k)) = k" using step a0 True by simp
        then show ?thesis using gk True none by auto
      next
        case ngk: False
        then have "snd (loop (Suc k)) = 0" using step a0 by simp
        moreover have "\<not> (\<exists>i<Suc k. ge i)" using none ngk less_Suc_eq by auto
        ultimately show ?thesis by simp
      qed
    qed
  qed
qed

subsection \<open>Snapshots sorted by time\<close>

lemma numeric_nth:
  assumes "map game_time snaps = map Some ts" "i < length snaps"
  shows "game_time (snaps ! i) = Some (ts ! i)"
proof -
  have "length ts = length snaps" using assms(1) by (metis length_map)
  then have "map game_time snaps ! i = map Some ts ! i" using assms by simp
  then show ?thesis using assms(2) \<open>length ts = length snaps\<close> by simp
qed

lemma numeric_length: "map game_time snaps = map Some ts \<Longrightarrow> length ts = length snaps"
  by (metis length_map)

lemma before_at_snapshot_time:
  assumes num: "map game_time snaps = map Some ts" and srt: "sorted ts" and i: "i < length snaps"
  shows "fst (bracket snaps (ts ! i)) < length snaps
         \<and> i \<le> fst (bracket snaps (ts ! i))
         \<and> game_time (snaps ! fst (bracket snaps (ts ! i))) = Some (ts ! i)"
proof -
  let ?T = "ts ! i"
  let ?b = "fst (bracket snaps ?T)"
  let ?le = "\<lambda>j. jle (tonum (game_time (snaps ! j))) (Num ?T)"
  have len: "length ts = length snaps" using num by (rule numeric_length)
  have lei: "?le i" using numeric_nth[OF num i] by simp
  then have ex: "\<exists>j<length snaps. ?le j" using i by blast
  have ch: "?b < length snaps \<and> ?le ?b \<and> (\<forall>j. ?b < j \<and> j < length snaps \<longrightarrow> \<not> ?le j)"
    using before_char[of "length snaps" snaps ?T] ex unfolding bracket_def by simp
  then have b: "?b < length snaps" by simp
  have ib: "i \<le> ?b"
  proof (rule ccontr)
    assume "\<not> i \<le> ?b"
    then have "?b < i \<and> i < length snaps" using i by simp
    then have "\<not> ?le i" using ch by blast
    then show False using lei by simp
  qed
  have "ts ! ?b \<le> ?T" using ch numeric_nth[OF num b] by simp
  moreover have "?T \<le> ts ! ?b" using srt ib b len by (simp add: sorted_nth_mono)
  ultimately have "ts ! ?b = ?T" by simp
  then show ?thesis using b ib numeric_nth[OF num b] by simp
qed

lemma after_at_snapshot_time:
  assumes num: "map game_time snaps = map Some ts" and srt: "sorted ts" and i: "i < length snaps"
  shows "snd (bracket snaps (ts ! i)) < length snaps
         \<and> game_time (snaps ! snd (bracket snaps (ts ! i))) = Some (ts ! i)"
proof -
  let ?T = "ts ! i"
  let ?a = "snd (bracket snaps ?T)"
  let ?ge = "\<lambda>j. jge (tonum (game_time (snaps ! j))) (Num ?T)"
  let ?lt0 = "jlt (tonum (game_time (snaps ! 0))) (Num ?T)"
  have len: "length ts = length snaps" using num by (rule numeric_length)
  have gei: "?ge i" using numeric_nth[OF num i] by (simp add: jge_def)
  have pos: "0 < length snaps" using i by auto
  have ch: "if ?lt0 \<and> (\<exists>j<length snaps. ?ge j)
            then ?a < length snaps \<and> ?ge ?a \<and> (\<forall>j<?a. \<not> ?ge j) else ?a = 0"
    using after_char[of snaps ?T "length snaps"] unfolding bracket_def by simp
  show ?thesis
  proof (cases "?lt0")
    case True
    moreover have "\<exists>j<length snaps. ?ge j" using gei i by blast
    ultimately have "?a < length snaps \<and> ?ge ?a \<and> (\<forall>j<?a. \<not> ?ge j)" using ch by simp
    then have c: "?a < length snaps" "?ge ?a" "\<forall>j<?a. \<not> ?ge j" by simp_all
    have "?a \<le> i" using c(3) gei by (meson not_le_imp_less)
    then have "ts ! ?a \<le> ?T" using srt i len by (simp add: sorted_nth_mono)
    moreover have "?T \<le> ts ! ?a" using c(2) numeric_nth[OF num c(1)] by (simp add: jge_def)
    ultimately have "ts ! ?a = ?T" by simp
    then show ?thesis using c(1) numeric_nth[OF num c(1)] by simp
  next
    case False
    then have a0: "?a = 0" using ch by simp
    have "\<not> ts ! 0 < ?T" using False numeric_nth[OF num pos] by simp
    moreover have "ts ! 0 \<le> ?T" using srt i len by (simp add: sorted_nth_mono)
    ultimately have "ts ! 0 = ?T" by simp
    then show ?thesis using a0 pos numeric_nth[OF num pos] by simp
  qed
qed

lemma currentAircraft_verbatim:
  assumes "snaps \<noteq> []" "bracket snaps T = (bi, ai)"
    and "bi = ai \<or> ev_aircraft (snaps ! bi) = None \<or> ev_aircraft (snaps ! ai) = None
         \<or> game_time (snaps ! bi) = game_time (snaps ! ai)"
  shows "currentAircraft snaps T = aircraft_or_empty (snaps ! bi)"
  using assms by (simp add: currentAircraft_def)

lemma currentAircraft_at_snapshot_time:
  assumes num: "map game_time snaps = map Some ts" and srt: "sorted ts" and i: "i < length snaps"
  shows "currentAircraft snaps (ts ! i) = aircraft_or_empty (snaps ! fst (bracket snaps (ts ! i)))"
proof -
  have ne: "snaps \<noteq> []" using i by auto
  have "game_time (snaps ! fst (bracket snaps (ts ! i))) = game_time (snaps ! snd (bracket snaps (ts ! i)))"
    using before_at_snapshot_time[OF num srt i] after_at_snapshot_time[OF num srt i] by simp
  then show ?thesis
    using currentAircraft_verbatim[OF ne, of "ts ! i" "fst (bracket snaps (ts ! i))" "snd (bracket snaps (ts ! i))"]
    by simp
qed

section \<open>Maps and the interpolation loop\<close>

lemma map_set_fresh: "k \<notin> fst ` set m \<Longrightarrow> map_set m k v = m @ [(k, v)]"
  by (induction m) auto

lemma map_set_keys: "fst ` set (map_set m k v) = insert k (fst ` set m)"
proof (induction m)
  case Nil
  show ?case by simp
next
  case (Cons e m)
  obtain k' v' where e: "e = (k', v')" by (cases e)
  show ?case using Cons.IH e by (cases "k' = k") auto
qed

lemma map_set_values: "snd ` set (map_set m k v) \<subseteq> insert v (snd ` set m)"
proof (induction m)
  case Nil
  show ?case by simp
next
  case (Cons e m)
  obtain k' v' where e: "e = (k', v')" by (cases e)
  show ?case using Cons.IH e by (cases "k' = k") auto
qed

lemma fold_set_distinct:
  "distinct (map fst (acc @ es)) \<Longrightarrow>
     foldl (\<lambda>m (k, v). map_set m k v) acc es = acc @ es"
proof (induction es arbitrary: acc)
  case Nil
  then show ?case by simp
next
  case (Cons e es)
  obtain k v where e: "e = (k, v)" by (cases e)
  have fresh: "k \<notin> fst ` set acc" using Cons.prems e by auto
  have "distinct (map fst ((acc @ [(k, v)]) @ es))" using Cons.prems e by simp
  then have "foldl (\<lambda>m (k, v). map_set m k v) (acc @ [(k, v)]) es = (acc @ [(k, v)]) @ es"
    by (rule Cons.IH)
  then show ?case using fresh e by (simp add: map_set_fresh)
qed

lemma new_Map_distinct: "distinct (map fst es) \<Longrightarrow> new_Map es = es"
  using fold_set_distinct[of "[]" es] by (simp add: new_Map_def)

lemma fold_set_keys:
  "fst ` set (foldl (\<lambda>m (k, v). map_set m k v) acc es) = fst ` set acc \<union> fst ` set es"
proof (induction es arbitrary: acc)
  case Nil
  then show ?case by simp
next
  case (Cons e es)
  obtain k v where e: "e = (k, v)" by (cases e)
  show ?case using Cons.IH[of "map_set acc k v"] e by (simp add: map_set_keys)
qed

lemma fold_set_values:
  "snd ` set (foldl (\<lambda>m (k, v). map_set m k v) acc es) \<subseteq> snd ` set acc \<union> snd ` set es"
proof (induction es arbitrary: acc)
  case Nil
  then show ?case by simp
next
  case (Cons e es)
  obtain k v where e: "e = (k, v)" by (cases e)
  have "snd ` set (foldl (\<lambda>m (k, v). map_set m k v) (map_set acc k v) es)
          \<subseteq> snd ` set (map_set acc k v) \<union> snd ` set es"
    by (rule Cons.IH)
  also have "\<dots> \<subseteq> insert v (snd ` set acc) \<union> snd ` set es"
    using map_set_values[of acc k v] by blast
  finally show ?case using e by auto
qed

lemma new_Map_keys: "fst ` set (new_Map es) = fst ` set es"
  using fold_set_keys[of "[]" es] by (simp add: new_Map_def)

lemma new_Map_values: "snd ` set (new_Map es) \<subseteq> snd ` set es"
  using fold_set_values[of "[]" es] by (simp add: new_Map_def)

lemma map_get_absent: "map_get (new_Map es) k = None \<longleftrightarrow> k \<notin> fst ` set es"
  by (simp add: map_get_def map_of_eq_None_iff new_Map_keys)

lemma afterMap_absent:
  "map_get (new_Map (map (\<lambda>a. (callsign a, a)) as)) c = None \<longleftrightarrow> c \<notin> callsign ` set as"
  by (simp add: map_get_absent image_image)

lemma interpolate_one_callsign: "callsign (interpolate_one m t e) = callsign (snd e)"
  by (simp add: interpolate_one_def Let_def split: option.splits)

lemma interpolate_one_frame:
  "\<exists>alt hdg spd pos.
     interpolate_one m t e = (snd e)\<lparr>altitude := alt, heading := hdg, speed := spd, position := pos\<rparr>"
proof (cases "map_get m (fst e)")
  case None
  then have "interpolate_one m t e = (snd e)\<lparr>altitude := altitude (snd e), heading := heading (snd e),
                         speed := speed (snd e), position := position (snd e)\<rparr>"
    by (simp add: interpolate_one_def Let_def)
  then show ?thesis by blast
next
  case (Some a)
  then show ?thesis by (simp add: interpolate_one_def Let_def) blast
qed

lemma interpolate_one_absent:
  "map_get m (fst e) = None \<Longrightarrow> interpolate_one m t e = snd e"
  by (simp add: interpolate_one_def Let_def)

lemma interpolate_aircraft_distinct:
  assumes "distinct (map callsign bs)"
  shows "interpolate_aircraft bs as t =
           map (\<lambda>b. interpolate_one (new_Map (map (\<lambda>a. (callsign a, a)) as)) t (callsign b, b)) bs"
proof -
  have "distinct (map fst (map (\<lambda>a. (callsign a, a)) bs))" using assms by (simp add: comp_def)
  then have "new_Map (map (\<lambda>a. (callsign a, a)) bs) = map (\<lambda>a. (callsign a, a)) bs"
    by (rule new_Map_distinct)
  then show ?thesis by (simp add: interpolate_aircraft_def Let_def comp_def)
qed

lemma currentAircraft_interpolating:
  assumes "snaps \<noteq> []" "bracket snaps T = (bi, ai)" "bi \<noteq> ai"
    and "ev_aircraft (snaps ! bi) = Some bs" "ev_aircraft (snaps ! ai) = Some as"
    and "game_time (snaps ! bi) \<noteq> game_time (snaps ! ai)"
  shows "currentAircraft snaps T = interpolate_aircraft bs as (fraction T (snaps ! bi) (snaps ! ai))"
  using assms by (simp add: currentAircraft_def)

lemma interpolate_aircraft_from_before:
  assumes "r \<in> set (interpolate_aircraft bs as t)"
  shows "\<exists>b\<in>set bs. \<exists>alt hdg spd pos.
           r = b\<lparr>altitude := alt, heading := hdg, speed := spd, position := pos\<rparr>"
proof -
  from assms obtain e where e: "e \<in> set (new_Map (map (\<lambda>a. (callsign a, a)) bs))"
    and r: "r = interpolate_one (new_Map (map (\<lambda>a. (callsign a, a)) as)) t e"
    by (auto simp: interpolate_aircraft_def Let_def)
  have "snd e \<in> snd ` set (map (\<lambda>a. (callsign a, a)) bs)"
    using e new_Map_values[of "map (\<lambda>a. (callsign a, a)) bs"] by blast
  then have "snd e \<in> set bs" by (auto simp: image_image)
  then show ?thesis using r interpolate_one_frame[of _ t e] by blast
qed

section \<open>The scenario of two snapshots\<close>

lemma bracket_two:
  "bracket [s0, s1] T = bracket_step [s0, s1] T (bracket_step [s0, s1] T (0, 0) 0) 1"
  by (simp add: bracket_def)

lemma two_snapshot_scenario:
  assumes "game_time s0 = Some 0" "ev_aircraft s0 = Some [p]"
      "altitude p = Num 1000" "heading p = Num 350"
      "game_time s1 = Some 10" "ev_aircraft s1 = Some [q]" "callsign q = callsign p"
      "altitude q = Num 2000" "heading q = Num 10"
  shows "\<exists>r. currentAircraft [s0, s1] 5 = [r] \<and> altitude r = Num 1500 \<and> heading r = Num 0"
proof -
  have b: "bracket [s0, s1] 5 = (0, 1)"
    using assms by (simp add: bracket_two bracket_step_def jge_def)
  have f: "fraction 5 s0 s1 = Num (1 / 2)" using assms by (simp add: fraction_def)
  have "currentAircraft [s0, s1] 5 = interpolate_aircraft [p] [q] (Num (1 / 2))"
    using currentAircraft_interpolating[of "[s0, s1]" 5 0 1 "[p]" "[q]"] b f assms by simp
  also have "\<dots> = [interpolate_one [(callsign p, q)] (Num (1 / 2)) (callsign p, p)]"
    using assms by (simp add: interpolate_aircraft_def new_Map_def)
  finally have ca: "currentAircraft [s0, s1] 5 = [interpolate_one [(callsign p, q)] (Num (1 / 2)) (callsign p, p)]" .
  have "altitude (interpolate_one [(callsign p, q)] (Num (1 / 2)) (callsign p, p)) = Num 1500"
    using assms by (simp add: interpolate_one_def map_get_def)
  moreover have "heading (interpolate_one [(callsign p, q)] (Num (1 / 2)) (callsign p, p)) = Num 0"
    using assms by (simp add: interpolate_one_def map_get_def interpolateAngle_def jgt_def trunc_def)
  ultimately show ?thesis using ca by simp
qed

text \<open>
  C3. For headings \<open>a\<close>, \<open>b\<close> in \<open>[0, 360)\<close> and a fraction \<open>t\<close> in \<open>[0, 1]\<close>,
  \<^verbatim>\<open>interpolateAngle\<close> takes \<open>d = b - a\<close>, subtracts \<open>360\<close> if \<open>d > 180\<close>, adds
  \<open>360\<close> if \<open>d < -180\<close>, and returns \<open>(a + d t + 360) mod 360\<close>, a number in
  \<open>[0, 360)\<close>. In particular \<^verbatim>\<open>interpolateAngle(350, 10, 0.5)\<close> is \<open>0\<close>, and with a
  snapshot at time \<open>0\<close> (altitude \<open>1000\<close>, heading \<open>350\<close>) and one at time \<open>10\<close>
  (altitude \<open>2000\<close>, heading \<open>10\<close>) the state at time \<open>5\<close> has altitude \<open>1500\<close> and
  heading \<open>0\<close>, whatever the other fields of the two records and events are.
\<close>

theorem heading_interpolation_shortest_path:
  fixes a b t :: real
  assumes "0 \<le> a" "a < 360" "0 \<le> b" "b < 360" "0 \<le> t" "t \<le> 1"
    and "game_time s0 = Some 0" "ev_aircraft s0 = Some [p]"
      "altitude p = Num 1000" "heading p = Num 350"
    and "game_time s1 = Some 10" "ev_aircraft s1 = Some [q]" "callsign q = callsign p"
      "altitude q = Num 2000" "heading q = Num 10"
  shows "(let d0 = b - a;
              d1 = (if d0 > 180 then d0 - 360 else d0);
              d = (if d1 < - 180 then d1 + 360 else d1);
              x = a + d * t + 360;
              r = x - 360 * of_int \<lfloor>x / 360\<rfloor>
          in interpolateAngle (Num a) (Num b) (Num t) = Num r \<and> 0 \<le> r \<and> r < 360)
       \<and> interpolateAngle (Num 350) (Num 10) (Num (1 / 2)) = Num 0
       \<and> (\<exists>r. currentAircraft [s0, s1] 5 = [r] \<and> altitude r = Num 1500 \<and> heading r = Num 0)"
proof (intro conjI)
  show "let d0 = b - a;
              d1 = (if d0 > 180 then d0 - 360 else d0);
              d = (if d1 < - 180 then d1 + 360 else d1);
              x = a + d * t + 360;
              r = x - 360 * of_int \<lfloor>x / 360\<rfloor>
          in interpolateAngle (Num a) (Num b) (Num t) = Num r \<and> 0 \<le> r \<and> r < 360"
    using interpolateAngle_range[OF assms(1-6)] by (simp add: wrap_delta_def Let_def)
  show "interpolateAngle (Num 350) (Num 10) (Num (1 / 2)) = Num 0"
    by (simp add: interpolateAngle_def jgt_def trunc_def)
  show "\<exists>r. currentAircraft [s0, s1] 5 = [r] \<and> altitude r = Num 1500 \<and> heading r = Num 0"
    using assms(7-15) by (rule two_snapshot_scenario)
qed

theorem heading_interpolation_shortest_path_witness:
  "(0::real) \<le> 350 \<and> (350::real) < 360 \<and> (0::real) \<le> 10 \<and> (10::real) < 360
   \<and> (0::real) \<le> 1 / 4 \<and> (1 / 4::real) \<le> 1
   \<and> interpolateAngle (Num 350) (Num 10) (Num (1 / 4)) = Num 355
   \<and> (\<exists>r. currentAircraft [snapshot_event 0 [sample_aircraft ''AC1'' 1000 350],
                             snapshot_event 10 [sample_aircraft ''AC1'' 2000 10]] 5 = [r]
           \<and> altitude r = Num 1500 \<and> heading r = Num 0)"
proof -
  have fl: "\<lfloor>(715::real) / 360\<rfloor> = 1" by (simp add: floor_eq_iff)
  have "interpolateAngle (Num 350) (Num 10) (Num (1 / 4)) = Num 355
        \<and> (\<exists>r. currentAircraft [snapshot_event 0 [sample_aircraft ''AC1'' 1000 350],
                             snapshot_event 10 [sample_aircraft ''AC1'' 2000 10]] 5 = [r]
           \<and> altitude r = Num 1500 \<and> heading r = Num 0)"
    using heading_interpolation_shortest_path[of 350 10 "1 / 4"
        "snapshot_event 0 [sample_aircraft ''AC1'' 1000 350]" "sample_aircraft ''AC1'' 1000 350"
        "snapshot_event 10 [sample_aircraft ''AC1'' 2000 10]" "sample_aircraft ''AC1'' 2000 10"] fl
    by (simp add: snapshot_event_def sample_aircraft_def Let_def)
  then show ?thesis by simp
qed

section \<open>The state at the time of a snapshot\<close>

text \<open>
  With the snapshots sorted by time, the search at the time of snapshot \<open>i\<close> chooses
  \<open>i\<close> itself as \<^verbatim>\<open>before\<close> exactly when no later snapshot carries the same time; with
  several snapshots of one time it chooses the last of them.
\<close>

lemma chosen_before_iff_last_of_its_time:
  assumes num: "map game_time snaps = map Some ts" and srt: "sorted ts" and i: "i < length snaps"
  shows "fst (bracket snaps (ts ! i)) = i \<longleftrightarrow> (\<forall>j. i < j \<and> j < length snaps \<longrightarrow> ts ! j \<noteq> ts ! i)"
proof
  let ?T = "ts ! i"
  let ?b = "fst (bracket snaps ?T)"
  let ?le = "\<lambda>j. jle (tonum (game_time (snaps ! j))) (Num ?T)"
  have lei: "?le i" using numeric_nth[OF num i] by simp
  then have ex: "\<exists>j<length snaps. ?le j" using i by blast
  have ch: "?b < length snaps \<and> ?le ?b \<and> (\<forall>j. ?b < j \<and> j < length snaps \<longrightarrow> \<not> ?le j)"
    using before_char[of "length snaps" snaps ?T] ex unfolding bracket_def by simp
  {
    assume eq: "?b = i"
    show "\<forall>j. i < j \<and> j < length snaps \<longrightarrow> ts ! j \<noteq> ts ! i"
    proof (intro allI impI)
      fix j assume j: "i < j \<and> j < length snaps"
      then have "\<not> ?le j" using ch eq by simp
      then show "ts ! j \<noteq> ts ! i" using numeric_nth[OF num] j by auto
    qed
  }
  {
    assume last: "\<forall>j. i < j \<and> j < length snaps \<longrightarrow> ts ! j \<noteq> ts ! i"
    have fact: "?b < length snaps \<and> i \<le> ?b \<and> game_time (snaps ! ?b) = Some ?T"
      by (rule before_at_snapshot_time[OF num srt i])
    then have "ts ! ?b = ?T" using numeric_nth[OF num, of ?b] by simp
    then have "\<not> i < ?b" using last fact by blast
    then show "?b = i" using fact by simp
  }
qed

text \<open>A snapshot that the search chooses at a time not before the first snapshot is
  also the one it chooses at the snapshot's own time.\<close>

lemma chosen_before_stays_chosen:
  assumes num: "map game_time snaps = map Some ts" and srt: "sorted ts"
    and ne: "snaps \<noteq> []" and T: "ts ! 0 \<le> T"
  shows "fst (bracket snaps T) < length snaps
       \<and> fst (bracket snaps (ts ! fst (bracket snaps T))) = fst (bracket snaps T)"
proof -
  let ?b = "fst (bracket snaps T)"
  let ?le = "\<lambda>j. jle (tonum (game_time (snaps ! j))) (Num T)"
  have pos: "0 < length snaps" using ne by simp
  have "?le 0" using numeric_nth[OF num pos] T by simp
  then have ex: "\<exists>j<length snaps. ?le j" using pos by blast
  have ch: "?b < length snaps \<and> ?le ?b \<and> (\<forall>j. ?b < j \<and> j < length snaps \<longrightarrow> \<not> ?le j)"
    using before_char[of "length snaps" snaps T] ex unfolding bracket_def by simp
  then have b: "?b < length snaps" by simp
  have bT: "ts ! ?b \<le> T" using ch numeric_nth[OF num b] by simp
  have "\<forall>j. ?b < j \<and> j < length snaps \<longrightarrow> ts ! j \<noteq> ts ! ?b"
  proof (intro allI impI)
    fix j assume j: "?b < j \<and> j < length snaps"
    then have "\<not> ?le j" using ch by blast
    then have "T < ts ! j" using numeric_nth[OF num, of j] j by simp
    then show "ts ! j \<noteq> ts ! ?b" using bT by simp
  qed
  then show ?thesis using chosen_before_iff_last_of_its_time[OF num srt b] b by simp
qed

text \<open>
  C5, as claimed, fails where several snapshots have one time. In the sorted sequence
  \<open>equal_time_snapshots\<close> the search at time \<open>3\<close> chooses the first snapshot as
  \<^verbatim>\<open>before\<close>, and the state at the \<^verbatim>\<open>game_time\<close> of that snapshot, \<open>5\<close>, is the
  aircraft list of the second snapshot, not of the first.
\<close>

theorem first_of_equal_times_not_returned:
  "map game_time equal_time_snapshots = map Some [5, 5]
   \<and> sorted [5, 5 :: real]
   \<and> bracket equal_time_snapshots 3 = (0, 0)
   \<and> currentAircraft equal_time_snapshots 3 = [sample_aircraft ''AC1'' 1000 350]
   \<and> game_time (equal_time_snapshots ! 0) = Some 5
   \<and> aircraft_or_empty (equal_time_snapshots ! 0) = [sample_aircraft ''AC1'' 1000 350]
   \<and> bracket equal_time_snapshots 5 = (1, 0)
   \<and> currentAircraft equal_time_snapshots 5 = [sample_aircraft ''AC1'' 2000 10]
   \<and> currentAircraft equal_time_snapshots 5 \<noteq> aircraft_or_empty (equal_time_snapshots ! 0)"
proof -
  have b3: "bracket equal_time_snapshots 3 = (0, 0)"
    by (simp add: equal_time_snapshots_def bracket_def bracket_step_def snapshot_event_def jge_def)
  have b5: "bracket equal_time_snapshots 5 = (1, 0)"
    by (simp add: equal_time_snapshots_def bracket_def bracket_step_def snapshot_event_def jge_def)
  have ne: "equal_time_snapshots \<noteq> []" by (simp add: equal_time_snapshots_def)
  have c3: "currentAircraft equal_time_snapshots 3 = [sample_aircraft ''AC1'' 1000 350]"
    using currentAircraft_verbatim[OF ne b3]
    by (simp add: equal_time_snapshots_def aircraft_or_empty_def snapshot_event_def)
  have "game_time (equal_time_snapshots ! 1) = game_time (equal_time_snapshots ! 0)"
    by (simp add: equal_time_snapshots_def snapshot_event_def)
  then have c5: "currentAircraft equal_time_snapshots 5 = [sample_aircraft ''AC1'' 2000 10]"
    using currentAircraft_verbatim[OF ne b5]
    by (simp add: equal_time_snapshots_def aircraft_or_empty_def snapshot_event_def)
  have a0: "aircraft_or_empty (equal_time_snapshots ! 0) = [sample_aircraft ''AC1'' 1000 350]"
    by (simp add: equal_time_snapshots_def aircraft_or_empty_def snapshot_event_def)
  have d: "sample_aircraft ''AC1'' 2000 10 \<noteq> sample_aircraft ''AC1'' 1000 350"
    by (simp add: sample_aircraft_def)
  have "map game_time equal_time_snapshots = map Some [5, 5]"
    by (simp add: equal_time_snapshots_def snapshot_event_def)
  moreover have "game_time (equal_time_snapshots ! 0) = Some 5"
    by (simp add: equal_time_snapshots_def snapshot_event_def)
  ultimately show ?thesis using b3 b5 c3 c5 a0 d by simp
qed

text \<open>
  C5, amended. In a sequence of snapshots sorted by time, for every snapshot that no later
  snapshot shares its \<^verbatim>\<open>game_time\<close> with (every snapshot, when the times are strictly
  increasing), the search at that time chooses this snapshot as \<^verbatim>\<open>before\<close> and the state
  is its aircraft list, element for element, with no interpolation applied. And for any
  sequence and any time: when \<^verbatim>\<open>before\<close> and \<^verbatim>\<open>after\<close> are the same snapshot, or
  one of them has no aircraft, or their times are equal, the state is the aircraft list of
  \<^verbatim>\<open>before\<close> as it is (the empty list when \<^verbatim>\<open>before\<close> has none).
\<close>

theorem state_at_snapshot_time_verbatim:
  assumes "map game_time snaps = map Some ts" and "sorted ts" and "i < length snaps"
    and "\<forall>j. i < j \<and> j < length snaps \<longrightarrow> ts ! j \<noteq> ts ! i"
    and "snaps' \<noteq> []" and "bracket snaps' T = (bi, ai)"
    and "bi = ai \<or> ev_aircraft (snaps' ! bi) = None \<or> ev_aircraft (snaps' ! ai) = None
         \<or> game_time (snaps' ! bi) = game_time (snaps' ! ai)"
  shows "fst (bracket snaps (ts ! i)) = i
       \<and> currentAircraft snaps (ts ! i) = aircraft_or_empty (snaps ! i)
       \<and> currentAircraft snaps' T = aircraft_or_empty (snaps' ! bi)"
proof -
  have b: "fst (bracket snaps (ts ! i)) = i"
    using chosen_before_iff_last_of_its_time[OF assms(1-3)] assms(4) by simp
  then have "currentAircraft snaps (ts ! i) = aircraft_or_empty (snaps ! i)"
    using currentAircraft_at_snapshot_time[OF assms(1-3)] by simp
  moreover have "currentAircraft snaps' T = aircraft_or_empty (snaps' ! bi)"
    by (rule currentAircraft_verbatim[OF assms(5-7)])
  ultimately show ?thesis using b by simp
qed

theorem state_at_snapshot_time_verbatim_witness:
  "(let snaps = [snapshot_event 0 [sample_aircraft ''AC1'' 1000 350],
                 snapshot_event 10 [sample_aircraft ''AC1'' 1500 0],
                 snapshot_event 10 [sample_aircraft ''AC1'' 2000 10],
                 snapshot_event 20 []]
    in map game_time snaps = map Some [0, 10, 10, 20] \<and> sorted [0, 10, 10, 20 :: real]
       \<and> fst (bracket snaps 10) = 2
       \<and> currentAircraft snaps 10 = [sample_aircraft ''AC1'' 2000 10]
       \<and> bracket snaps (- 1) = (0, 0)
       \<and> currentAircraft snaps (- 1) = [sample_aircraft ''AC1'' 1000 350])"
proof -
  let ?snaps = "[snapshot_event 0 [sample_aircraft ''AC1'' 1000 350],
                 snapshot_event 10 [sample_aircraft ''AC1'' 1500 0],
                 snapshot_event 10 [sample_aircraft ''AC1'' 2000 10],
                 snapshot_event 20 []]"
  have h1: "map game_time ?snaps = map Some [0, 10, 10, 20]" by (simp add: snapshot_event_def)
  have h2: "sorted [0, 10, 10, 20 :: real]" by simp
  have h3: "(2::nat) < length ?snaps" by simp
  have h4: "\<forall>j. 2 < j \<and> j < length ?snaps \<longrightarrow> [0, 10, 10, 20 :: real] ! j \<noteq> [0, 10, 10, 20] ! 2"
  proof (intro allI impI)
    fix j :: nat assume "2 < j \<and> j < length ?snaps"
    then have "j = 3" by simp
    then show "[0, 10, 10, 20 :: real] ! j \<noteq> [0, 10, 10, 20] ! 2" by simp
  qed
  have h5: "?snaps \<noteq> []" by simp
  have h6: "bracket ?snaps (- 1) = (0, 0)"
    by (simp add: bracket_def bracket_step_def snapshot_event_def jge_def)
  have h7: "(0::nat) = 0 \<or> ev_aircraft (?snaps ! 0) = None \<or> ev_aircraft (?snaps ! 0) = None
         \<or> game_time (?snaps ! 0) = game_time (?snaps ! 0)" by simp
  note inst = state_at_snapshot_time_verbatim[OF h1 h2 h3 h4 h5 h6 h7]
  show ?thesis using inst h1 h6
    by (simp add: Let_def aircraft_or_empty_def snapshot_event_def)
qed

section \<open>The interpolating case\<close>

text \<open>
  C4. In the interpolating case (the search returns two different snapshots with different
  times, both with an aircraft list) and with the callsigns of \<^verbatim>\<open>before\<close> unique: the
  callsigns of the output are those of the aircraft list of \<^verbatim>\<open>before\<close>, in the same
  order and number; an aircraft of \<^verbatim>\<open>before\<close> whose callsign is absent from
  \<^verbatim>\<open>after\<close> is in the output unchanged, at its own place, at every time of the bracket;
  a callsign that only \<^verbatim>\<open>after\<close> has is not in the output.
\<close>

theorem departed_aircraft_kept:
  assumes "snaps \<noteq> []" and "bracket snaps T = (bi, ai)" and "bi \<noteq> ai"
    and "ev_aircraft (snaps ! bi) = Some bs" and "ev_aircraft (snaps ! ai) = Some as"
    and "game_time (snaps ! bi) \<noteq> game_time (snaps ! ai)"
    and "distinct (map callsign bs)"
  shows "map callsign (currentAircraft snaps T) = map callsign bs
       \<and> (\<forall>i<length bs. callsign (bs ! i) \<notin> callsign ` set as
              \<longrightarrow> currentAircraft snaps T ! i = bs ! i)
       \<and> (\<forall>c. c \<in> callsign ` set as \<and> c \<notin> callsign ` set bs
              \<longrightarrow> c \<notin> callsign ` set (currentAircraft snaps T))"
proof -
  let ?t = "fraction T (snaps ! bi) (snaps ! ai)"
  let ?m = "new_Map (map (\<lambda>a. (callsign a, a)) as)"
  have ca: "currentAircraft snaps T = map (\<lambda>b. interpolate_one ?m ?t (callsign b, b)) bs"
    using currentAircraft_interpolating[OF assms(1-6)] interpolate_aircraft_distinct[OF assms(7)]
    by simp
  have cs: "map callsign (currentAircraft snaps T) = map callsign bs"
    unfolding ca by (simp add: interpolate_one_callsign comp_def)
  have kept: "\<forall>i<length bs. callsign (bs ! i) \<notin> callsign ` set as
              \<longrightarrow> currentAircraft snaps T ! i = bs ! i"
  proof (intro allI impI)
    fix i assume i: "i < length bs" and absent: "callsign (bs ! i) \<notin> callsign ` set as"
    have "map_get ?m (callsign (bs ! i)) = None" using absent by (simp add: afterMap_absent)
    then have "interpolate_one ?m ?t (callsign (bs ! i), bs ! i) = bs ! i"
      by (simp add: interpolate_one_absent)
    then show "currentAircraft snaps T ! i = bs ! i" unfolding ca using i by simp
  qed
  have "callsign ` set (currentAircraft snaps T) = callsign ` set bs"
    using cs by (metis list.set_map)
  then show ?thesis using cs kept by simp
qed

theorem departed_aircraft_kept_witness:
  "(let snaps = [snapshot_event 0 [sample_aircraft ''AC1'' 1000 350, sample_aircraft ''AC2'' 3000 90],
                 snapshot_event 10 [sample_aircraft ''AC3'' 500 0, sample_aircraft ''AC1'' 2000 10]]
    in snaps \<noteq> [] \<and> bracket snaps 5 = (0, 1)
       \<and> game_time (snaps ! 0) \<noteq> game_time (snaps ! 1)
       \<and> map callsign (currentAircraft snaps 5) = [''AC1'', ''AC2'']
       \<and> currentAircraft snaps 5 ! 1 = sample_aircraft ''AC2'' 3000 90
       \<and> ''AC3'' \<notin> callsign ` set (currentAircraft snaps 5))"
proof -
  let ?bs = "[sample_aircraft ''AC1'' 1000 350, sample_aircraft ''AC2'' 3000 90]"
  let ?as = "[sample_aircraft ''AC3'' 500 0, sample_aircraft ''AC1'' 2000 10]"
  let ?snaps = "[snapshot_event 0 ?bs, snapshot_event 10 ?as]"
  have h1: "?snaps \<noteq> []" by simp
  have h2: "bracket ?snaps 5 = (0, 1)"
    by (simp add: bracket_def bracket_step_def snapshot_event_def jge_def)
  have h3: "(0::nat) \<noteq> 1" by simp
  have h4: "ev_aircraft (?snaps ! 0) = Some ?bs" by (simp add: snapshot_event_def)
  have h5: "ev_aircraft (?snaps ! 1) = Some ?as" by (simp add: snapshot_event_def)
  have h6: "game_time (?snaps ! 0) \<noteq> game_time (?snaps ! 1)" by (simp add: snapshot_event_def)
  have h7: "distinct (map callsign ?bs)" by (simp add: sample_aircraft_def)
  note inst = departed_aircraft_kept[OF h1 h2 h3 h4 h5 h6 h7]
  have cs: "map callsign (currentAircraft ?snaps 5) = [''AC1'', ''AC2'']"
    using inst by (simp add: sample_aircraft_def)
  have "callsign (?bs ! 1) \<notin> callsign ` set ?as" by (simp add: sample_aircraft_def)
  then have kept: "currentAircraft ?snaps 5 ! 1 = sample_aircraft ''AC2'' 3000 90"
    using inst by simp
  have "''AC3'' \<in> callsign ` set ?as \<and> ''AC3'' \<notin> callsign ` set ?bs"
    by (simp add: sample_aircraft_def)
  then have "''AC3'' \<notin> callsign ` set (currentAircraft ?snaps 5)" using inst by blast
  then show ?thesis using h1 h2 h6 cs kept by (simp add: Let_def)
qed

text \<open>
  C10. In the interpolating case every record of the output is a record of
  \<^verbatim>\<open>before\<close> with only altitude, heading, speed and position replaced; with unique
  callsigns in \<^verbatim>\<open>before\<close> the record at place \<open>i\<close> of the output comes from the record at
  place \<open>i\<close> of \<^verbatim>\<open>before\<close>, and its callsign, phase and extra fields are those of that
  record: none is taken from \<^verbatim>\<open>after\<close>, none is dropped.
\<close>

theorem interpolated_record_frame:
  assumes "snaps \<noteq> []" and "bracket snaps T = (bi, ai)" and "bi \<noteq> ai"
    and "ev_aircraft (snaps ! bi) = Some bs" and "ev_aircraft (snaps ! ai) = Some as"
    and "game_time (snaps ! bi) \<noteq> game_time (snaps ! ai)"
  shows "(\<forall>r\<in>set (currentAircraft snaps T). \<exists>b\<in>set bs. \<exists>alt hdg spd pos.
            r = b\<lparr>altitude := alt, heading := hdg, speed := spd, position := pos\<rparr>)
       \<and> (distinct (map callsign bs) \<longrightarrow>
            length (currentAircraft snaps T) = length bs
            \<and> (\<forall>i<length bs.
                 let r = currentAircraft snaps T ! i; b = bs ! i
                 in (\<exists>alt hdg spd pos.
                       r = b\<lparr>altitude := alt, heading := hdg, speed := spd, position := pos\<rparr>)
                    \<and> callsign r = callsign b \<and> phase r = phase b \<and> extra r = extra b))"
proof (intro conjI impI)
  let ?t = "fraction T (snaps ! bi) (snaps ! ai)"
  let ?m = "new_Map (map (\<lambda>a. (callsign a, a)) as)"
  have ca: "currentAircraft snaps T = interpolate_aircraft bs as ?t"
    by (rule currentAircraft_interpolating[OF assms])
  show "\<forall>r\<in>set (currentAircraft snaps T). \<exists>b\<in>set bs. \<exists>alt hdg spd pos.
            r = b\<lparr>altitude := alt, heading := hdg, speed := spd, position := pos\<rparr>"
    unfolding ca using interpolate_aircraft_from_before by blast
  assume d: "distinct (map callsign bs)"
  have cm: "currentAircraft snaps T = map (\<lambda>b. interpolate_one ?m ?t (callsign b, b)) bs"
    using ca interpolate_aircraft_distinct[OF d] by simp
  show "length (currentAircraft snaps T) = length bs" unfolding cm by simp
  show "\<forall>i<length bs.
                 let r = currentAircraft snaps T ! i; b = bs ! i
                 in (\<exists>alt hdg spd pos.
                       r = b\<lparr>altitude := alt, heading := hdg, speed := spd, position := pos\<rparr>)
                    \<and> callsign r = callsign b \<and> phase r = phase b \<and> extra r = extra b"
  proof (intro allI impI)
    fix i assume i: "i < length bs"
    have ri: "currentAircraft snaps T ! i = interpolate_one ?m ?t (callsign (bs ! i), bs ! i)"
      unfolding cm using i by simp
    obtain alt hdg spd pos where
      fr: "interpolate_one ?m ?t (callsign (bs ! i), bs ! i)
             = (bs ! i)\<lparr>altitude := alt, heading := hdg, speed := spd, position := pos\<rparr>"
      using interpolate_one_frame[of ?m ?t "(callsign (bs ! i), bs ! i)"] by auto
    have ex: "\<exists>alt hdg spd pos. currentAircraft snaps T ! i
                = (bs ! i)\<lparr>altitude := alt, heading := hdg, speed := spd, position := pos\<rparr>"
      using interpolate_one_frame[of ?m ?t "(callsign (bs ! i), bs ! i)"] unfolding ri by simp
    have same: "callsign (currentAircraft snaps T ! i) = callsign (bs ! i)
                \<and> phase (currentAircraft snaps T ! i) = phase (bs ! i)
                \<and> extra (currentAircraft snaps T ! i) = extra (bs ! i)"
      using ri fr by simp
    show "let r = currentAircraft snaps T ! i; b = bs ! i
                 in (\<exists>alt hdg spd pos.
                       r = b\<lparr>altitude := alt, heading := hdg, speed := spd, position := pos\<rparr>)
                    \<and> callsign r = callsign b \<and> phase r = phase b \<and> extra r = extra b"
      unfolding Let_def using ex same by (rule conjI)
  qed
qed

theorem interpolated_record_frame_witness:
  "(let bs = [(sample_aircraft ''AC1'' 1000 350)\<lparr>phase := Some ''approach'', extra := [(''squawk'', ''7000'')]\<rparr>,
              sample_aircraft ''AC2'' 3000 90];
        as = [(sample_aircraft ''AC1'' 2000 10)\<lparr>phase := Some ''final'', extra := []\<rparr>];
        snaps = [snapshot_event 0 bs, snapshot_event 10 as]
    in snaps \<noteq> [] \<and> bracket snaps 5 = (0, 1)
       \<and> game_time (snaps ! 0) \<noteq> game_time (snaps ! 1) \<and> distinct (map callsign bs)
       \<and> length (currentAircraft snaps 5) = 2
       \<and> phase (currentAircraft snaps 5 ! 0) = Some ''approach''
       \<and> extra (currentAircraft snaps 5 ! 0) = [(''squawk'', ''7000'')]
       \<and> callsign (currentAircraft snaps 5 ! 0) = ''AC1'')"
proof -
  let ?bs = "[(sample_aircraft ''AC1'' 1000 350)\<lparr>phase := Some ''approach'', extra := [(''squawk'', ''7000'')]\<rparr>,
              sample_aircraft ''AC2'' 3000 90]"
  let ?as = "[(sample_aircraft ''AC1'' 2000 10)\<lparr>phase := Some ''final'', extra := []\<rparr>]"
  let ?snaps = "[snapshot_event 0 ?bs, snapshot_event 10 ?as]"
  have h1: "?snaps \<noteq> []" by simp
  have h2: "bracket ?snaps 5 = (0, 1)"
    by (simp add: bracket_def bracket_step_def snapshot_event_def jge_def)
  have h3: "(0::nat) \<noteq> 1" by simp
  have h4: "ev_aircraft (?snaps ! 0) = Some ?bs" by (simp add: snapshot_event_def)
  have h5: "ev_aircraft (?snaps ! 1) = Some ?as" by (simp add: snapshot_event_def)
  have h6: "game_time (?snaps ! 0) \<noteq> game_time (?snaps ! 1)" by (simp add: snapshot_event_def)
  have h7: "distinct (map callsign ?bs)" by (simp add: sample_aircraft_def)
  note inst = interpolated_record_frame[OF h1 h2 h3 h4 h5 h6]
  from inst h7 have len: "length (currentAircraft ?snaps 5) = length ?bs" by blast
  from inst h7 have "\<forall>i<length ?bs.
       callsign (currentAircraft ?snaps 5 ! i) = callsign (?bs ! i)
       \<and> phase (currentAircraft ?snaps 5 ! i) = phase (?bs ! i)
       \<and> extra (currentAircraft ?snaps 5 ! i) = extra (?bs ! i)"
    unfolding Let_def by blast
  then have "callsign (currentAircraft ?snaps 5 ! 0) = callsign (?bs ! 0)
       \<and> phase (currentAircraft ?snaps 5 ! 0) = phase (?bs ! 0)
       \<and> extra (currentAircraft ?snaps 5 ! 0) = extra (?bs ! 0)" by simp
  then show ?thesis using h1 h2 h6 h7 len by (simp add: Let_def sample_aircraft_def)
qed

section \<open>Timeline markers are sorted, and stably\<close>

lemma time_le_iff:
  "time_le a b \<longleftrightarrow> (\<exists>x y. time a = Some x \<and> time b = Some y \<and> x \<le> y)"
  by (cases "time a"; cases "time b") (simp_all add: time_le_def)

lemma by_time_gt: "time a = Some x \<Longrightarrow> time b = Some y \<Longrightarrow> jgt (by_time a b) (Num 0) = (y < x)"
  by (simp add: by_time_def jgt_def)

lemma set_sort_insert: "set (sort_insert cmp x ys) = insert x (set ys)"
  by (induction ys) auto

lemma sorted_sort_insert:
  assumes "time x \<noteq> None" "\<forall>y\<in>set ys. time y \<noteq> None" "sorted_wrt time_le ys"
  shows "sorted_wrt time_le (sort_insert by_time x ys)"
  using assms
proof (induction ys)
  case Nil
  show ?case by simp
next
  case (Cons y ys)
  obtain a where a: "time x = Some a" using Cons.prems(1) by auto
  obtain b where b: "time y = Some b" using Cons.prems(2) by auto
  show ?case
  proof (cases "b < a")
    case True
    have "sorted_wrt time_le (sort_insert by_time x ys)" using Cons by simp
    moreover have "\<forall>z\<in>set (sort_insert by_time x ys). time_le y z"
      using Cons.prems(3) True a b by (auto simp: set_sort_insert time_le_def)
    ultimately show ?thesis using True a b by (simp add: by_time_gt)
  next
    case False
    have "time_le x y" using False a b by (simp add: time_le_def)
    moreover have "\<forall>z\<in>set ys. time_le x z"
    proof
      fix z assume z: "z \<in> set ys"
      then obtain c where c: "time z = Some c" using Cons.prems(2) by auto
      have "time_le y z" using Cons.prems(3) z by simp
      then show "time_le x z" using False a b c by (simp add: time_le_def)
    qed
    ultimately show ?thesis using False a b Cons.prems(3) by (simp add: by_time_gt)
  qed
qed

lemma array_sort_Cons: "array_sort cmp (x # xs) = sort_insert cmp x (array_sort cmp xs)"
  by (simp add: array_sort_def)

lemma set_array_sort: "set (array_sort cmp xs) = set xs"
  by (induction xs) (simp_all add: array_sort_def set_sort_insert)

lemma sorted_array_sort:
  "\<forall>x\<in>set xs. time x \<noteq> None \<Longrightarrow> sorted_wrt time_le (array_sort by_time xs)"
proof (induction xs)
  case Nil
  show ?case by (simp add: array_sort_def)
next
  case (Cons x xs)
  then show ?case
    by (simp add: array_sort_Cons sorted_sort_insert set_array_sort)
qed

lemma filter_sort_insert_other:
  "\<not> P x \<Longrightarrow> filter P (sort_insert cmp x ys) = filter P ys"
  by (induction ys) auto

lemma filter_sort_insert_same:
  assumes "time x = Some k" "\<forall>y\<in>set ys. time y \<noteq> None"
  shows "filter (\<lambda>m. time m = Some k) (sort_insert by_time x ys)
           = x # filter (\<lambda>m. time m = Some k) ys"
  using assms(2)
proof (induction ys)
  case Nil
  show ?case using assms(1) by simp
next
  case (Cons y ys)
  obtain b where b: "time y = Some b" using Cons.prems by auto
  show ?case
  proof (cases "b < k")
    case True
    then show ?thesis using Cons assms(1) b by (simp add: by_time_gt)
  next
    case False
    then show ?thesis using assms(1) b by (simp add: by_time_gt)
  qed
qed

lemma array_sort_stable:
  "\<forall>x\<in>set xs. time x \<noteq> None \<Longrightarrow>
     filter (\<lambda>m. time m = Some k) (array_sort by_time xs) = filter (\<lambda>m. time m = Some k) xs"
proof (induction xs)
  case Nil
  show ?case by (simp add: array_sort_def)
next
  case (Cons x xs)
  show ?case
  proof (cases "time x = Some k")
    case True
    then show ?thesis using Cons
      by (simp add: array_sort_Cons filter_sort_insert_same set_array_sort)
  next
    case False
    then show ?thesis using Cons
      by (simp add: array_sort_Cons filter_sort_insert_other)
  qed
qed

lemma length_sort_insert: "length (sort_insert cmp x ys) = Suc (length ys)"
  by (induction ys) auto

lemma length_array_sort: "length (array_sort cmp xs) = length xs"
  by (induction xs) (simp_all add: array_sort_def length_sort_insert)

lemma unsorted_markers_numeric:
  assumes "\<forall>e\<in>set evs. event_type e \<in> {Some ''conflict'', Some ''ils_clearance''} \<longrightarrow> game_time e \<noteq> None"
  shows "\<forall>m\<in>set (unsorted_markers evs). time m \<noteq> None"
  using assms by (auto simp: unsorted_markers_def conflicts_def ils_clearances_def conflict_marker_def ils_marker_def)

text \<open>
  C6. For every list of events whose conflict and ILS clearance events carry a numeric
  \<^verbatim>\<open>game_time\<close> (the markers are declared with \<^verbatim>\<open>time: number\<close>), in whatever order
  they come, the markers are in ascending order of time, none is lost or added, and the
  markers of one time are in the order of the input: the conflicts of that time in their
  order of the log, then the ILS clearances of that time in theirs.
\<close>

theorem markers_sorted_stable:
  assumes "\<forall>e\<in>set evs. event_type e \<in> {Some ''conflict'', Some ''ils_clearance''}
             \<longrightarrow> game_time e \<noteq> None"
  shows "sorted_wrt (\<lambda>a b. \<exists>x y. time a = Some x \<and> time b = Some y \<and> x \<le> y) (timelineEvents evs)
       \<and> length (timelineEvents evs) = length (conflicts evs) + length (ils_clearances evs)
       \<and> (\<forall>k. filter (\<lambda>m. time m = Some k) (timelineEvents evs)
               = filter (\<lambda>m. time m = Some k) (map conflict_marker (conflicts evs))
                 @ filter (\<lambda>m. time m = Some k) (map ils_marker (ils_clearances evs)))"
proof (intro conjI allI)
  have num: "\<forall>m\<in>set (unsorted_markers evs). time m \<noteq> None"
    using assms by (rule unsorted_markers_numeric)
  have "sorted_wrt time_le (timelineEvents evs)"
    unfolding timelineEvents_def using num by (rule sorted_array_sort)
  moreover have "time_le = (\<lambda>a b. \<exists>x y. time a = Some x \<and> time b = Some y \<and> x \<le> y)"
    by (intro ext) (rule time_le_iff)
  ultimately show "sorted_wrt (\<lambda>a b. \<exists>x y. time a = Some x \<and> time b = Some y \<and> x \<le> y) (timelineEvents evs)"
    by simp
  show "length (timelineEvents evs) = length (conflicts evs) + length (ils_clearances evs)"
    by (simp add: timelineEvents_def length_array_sort unsorted_markers_def ils_clearances_def)
  fix k
  show "filter (\<lambda>m. time m = Some k) (timelineEvents evs)
               = filter (\<lambda>m. time m = Some k) (map conflict_marker (conflicts evs))
                 @ filter (\<lambda>m. time m = Some k) (map ils_marker (ils_clearances evs))"
    using array_sort_stable[OF num, of k]
    by (simp add: timelineEvents_def unsorted_markers_def ils_clearances_def)
qed

theorem markers_sorted_stable_witness:
  "(let evs = [ils_event 7 ''AC2'' ''27L'', conflict_event 9 ''AC1'' ''AC2'',
               plain_event (Some ''session_end'') None, conflict_event 7 ''AC1'' ''AC3'',
               ils_event 3 ''AC1'' ''27R'']
    in map time (timelineEvents evs) = [Some 3, Some 7, Some 7, Some 9]
       \<and> map type (timelineEvents evs) = [''ils'', ''conflict'', ''ils'', ''conflict'']
       \<and> filter (\<lambda>m. time m = Some 7) (timelineEvents evs)
           = [conflict_marker (conflict_event 7 ''AC1'' ''AC3''),
              ils_marker (ils_event 7 ''AC2'' ''27L'')])"
proof -
  let ?evs = "[ils_event 7 ''AC2'' ''27L'', conflict_event 9 ''AC1'' ''AC2'',
               plain_event (Some ''session_end'') None, conflict_event 7 ''AC1'' ''AC3'',
               ils_event 3 ''AC1'' ''27R'']"
  have h: "\<forall>e\<in>set ?evs. event_type e \<in> {Some ''conflict'', Some ''ils_clearance''}
             \<longrightarrow> game_time e \<noteq> None"
    by (simp add: ils_event_def conflict_event_def plain_event_def)
  have c: "conflicts ?evs = [conflict_event 9 ''AC1'' ''AC2'', conflict_event 7 ''AC1'' ''AC3'']"
    by (simp add: conflicts_def ils_event_def conflict_event_def plain_event_def)
  have i: "ils_clearances ?evs = [ils_event 7 ''AC2'' ''27L'', ils_event 3 ''AC1'' ''27R'']"
    by (simp add: ils_clearances_def ils_event_def conflict_event_def plain_event_def)
  have ev: "timelineEvents ?evs =
      [ils_marker (ils_event 3 ''AC1'' ''27R''), conflict_marker (conflict_event 7 ''AC1'' ''AC3''),
       ils_marker (ils_event 7 ''AC2'' ''27L''), conflict_marker (conflict_event 9 ''AC1'' ''AC2'')]"
    using c i
    by (simp add: timelineEvents_def unsorted_markers_def array_sort_def ils_clearances_def
        by_time_def jgt_def conflict_marker_def ils_marker_def conflict_event_def ils_event_def)
  note inst = markers_sorted_stable[OF h]
  from inst have "filter (\<lambda>m. time m = Some 7) (timelineEvents ?evs)
               = filter (\<lambda>m. time m = Some 7) (map conflict_marker (conflicts ?evs))
                 @ filter (\<lambda>m. time m = Some 7) (map ils_marker (ils_clearances ?evs))"
    by blast
  then have st: "filter (\<lambda>m. time m = Some 7) (timelineEvents ?evs)
           = [conflict_marker (conflict_event 7 ''AC1'' ''AC3''),
              ils_marker (ils_event 7 ''AC2'' ''27L'')]"
    unfolding c i by (simp add: conflict_marker_def ils_marker_def conflict_event_def ils_event_def)
  have "map time (timelineEvents ?evs) = [Some 3, Some 7, Some 7, Some 9]"
    unfolding ev by (simp add: conflict_marker_def ils_marker_def conflict_event_def ils_event_def)
  moreover have "map type (timelineEvents ?evs) = [''ils'', ''conflict'', ''ils'', ''conflict'']"
    unfolding ev by (simp add: conflict_marker_def ils_marker_def)
  ultimately show ?thesis using st unfolding Let_def by blast
qed

section \<open>Time past the last snapshot\<close>

lemma maxTime_two: "maxTime late_decision_log = 15"
  by (simp add: late_decision_log_def two_snapshots_def maxTime_def game_time_or_0_def snapshot_event_def plain_event_def)

lemma snaps_late: "snapshots late_decision_log = two_snapshots"
  by (simp add: late_decision_log_def two_snapshots_def snapshots_def snapshot_event_def plain_event_def)

lemma loaded_eq: "loaded evs = initial_replay\<lparr>loading := False, events := evs\<rparr>"
  by (simp add: loaded_def fetchEvents_def initial_replay_def)

text \<open>
  Between the first and the last snapshot of a sorted sequence the search does bracket the
  time: \<^verbatim>\<open>before\<close> is the last snapshot at or before it, \<^verbatim>\<open>after\<close> is at or after it,
  and is the first such snapshot when the time is past the first snapshot.
\<close>

lemma bracket_within_range:
  assumes num: "map game_time snaps = map Some ts" and srt: "sorted ts"
    and ne: "snaps \<noteq> []" and lo: "ts ! 0 \<le> T" and hi: "T \<le> last ts"
  shows "fst (bracket snaps T) < length snaps \<and> snd (bracket snaps T) < length snaps
       \<and> ts ! fst (bracket snaps T) \<le> T \<and> T \<le> ts ! snd (bracket snaps T)
       \<and> (\<forall>j<length snaps. ts ! j \<le> T \<longrightarrow> j \<le> fst (bracket snaps T))
       \<and> (ts ! 0 < T \<longrightarrow> (\<forall>j<length snaps. T \<le> ts ! j \<longrightarrow> snd (bracket snaps T) \<le> j))"
proof -
  let ?b = "fst (bracket snaps T)" and ?a = "snd (bracket snaps T)"
  let ?le = "\<lambda>j. jle (tonum (game_time (snaps ! j))) (Num T)"
  let ?ge = "\<lambda>j. jge (tonum (game_time (snaps ! j))) (Num T)"
  let ?lt0 = "jlt (tonum (game_time (snaps ! 0))) (Num T)"
  have len: "length ts = length snaps" using num by (rule numeric_length)
  have pos: "0 < length snaps" using ne by simp
  have tsne: "ts \<noteq> []" using len ne by auto
  have le_iff: "\<And>j. j < length snaps \<Longrightarrow> ?le j = (ts ! j \<le> T)"
    using numeric_nth[OF num] by simp
  have ge_iff: "\<And>j. j < length snaps \<Longrightarrow> ?ge j = (T \<le> ts ! j)"
    using numeric_nth[OF num] by (simp add: jge_def)
  have "?le 0" using le_iff[OF pos] lo by simp
  then have exle: "\<exists>j<length snaps. ?le j" using pos by blast
  have chb: "?b < length snaps \<and> ?le ?b \<and> (\<forall>j. ?b < j \<and> j < length snaps \<longrightarrow> \<not> ?le j)"
    using before_char[of "length snaps" snaps T] exle unfolding bracket_def by simp
  have lastidx: "length snaps - 1 < length snaps" using pos by simp
  have "last ts = ts ! (length snaps - 1)" using tsne len by (simp add: last_conv_nth)
  then have "?ge (length snaps - 1)" using ge_iff[OF lastidx] hi by simp
  then have exge: "\<exists>j<length snaps. ?ge j" using lastidx by blast
  have cha: "if ?lt0 then ?a < length snaps \<and> ?ge ?a \<and> (\<forall>j<?a. \<not> ?ge j) else ?a = 0"
    using after_char[of snaps T "length snaps"] exge unfolding bracket_def by simp
  have lt0_iff: "?lt0 = (ts ! 0 < T)" using numeric_nth[OF num pos] by simp
  have b1: "?b < length snaps" and b2: "ts ! ?b \<le> T" using chb le_iff by auto
  have b3: "\<forall>j<length snaps. ts ! j \<le> T \<longrightarrow> j \<le> ?b"
    using chb le_iff by (meson not_le_imp_less)
  have a1: "?a < length snaps" using cha pos by (cases ?lt0) simp_all
  have a2: "T \<le> ts ! ?a"
  proof (cases ?lt0)
    case True
    then have "?ge ?a" using cha by simp
    then show ?thesis using ge_iff[OF a1] by simp
  next
    case False
    then have "?a = 0" using cha by simp
    moreover have "T \<le> ts ! 0" using False lt0_iff by simp
    ultimately show ?thesis by simp
  qed
  have a3: "ts ! 0 < T \<longrightarrow> (\<forall>j<length snaps. T \<le> ts ! j \<longrightarrow> ?a \<le> j)"
  proof (intro impI allI)
    fix j assume "ts ! 0 < T" and j: "j < length snaps" and Tj: "T \<le> ts ! j"
    then have "\<forall>k<?a. \<not> ?ge k" using cha lt0_iff by simp
    moreover have "?ge j" using ge_iff[OF j] Tj by simp
    ultimately show "?a \<le> j" by (meson not_le_imp_less)
  qed
  show ?thesis using b1 b2 b3 a1 a2 a3 by blast
qed

text \<open>
  C1. The claim: for snapshots sorted by time, \<^verbatim>\<open>before\<close> is the last snapshot at or
  before the time and \<^verbatim>\<open>after\<close> the first one at or after it, or \<^verbatim>\<open>before\<close> itself
  when there is none, so that at every time from the last snapshot on the state is the
  aircraft list of the last snapshot. The page at the log \<open>late_decision_log\<close>, whose
  last event is later than its last snapshot: the cursor can be set to time \<open>15\<close>, the search
  returns the last snapshot as \<^verbatim>\<open>before\<close> and the first one as \<^verbatim>\<open>after\<close>, and the state
  is extrapolated with the fraction \<open>-1/2\<close>: altitude \<open>2500\<close> and heading \<open>20\<close> instead of
  the \<open>2000\<close> and \<open>10\<close> of the last snapshot.
\<close>

theorem extrapolation_past_last_snapshot:
  "currentTime (seek 15 (loaded late_decision_log)) = 15
   \<and> snapshots (events (seek 15 (loaded late_decision_log))) = two_snapshots
   \<and> bracket two_snapshots 15 = (1, 0)
   \<and> currentAircraft two_snapshots 15 = [sample_aircraft ''AC1'' 2500 20]
   \<and> aircraft_or_empty (last two_snapshots) = [sample_aircraft ''AC1'' 2000 10]
   \<and> currentAircraft two_snapshots 15 \<noteq> aircraft_or_empty (last two_snapshots)"
proof -
  have b: "bracket two_snapshots 15 = (1, 0)"
    by (simp add: two_snapshots_def bracket_def bracket_step_def snapshot_event_def jge_def)
  have f: "fraction 15 (two_snapshots ! 1) (two_snapshots ! 0) = Num (- (1 / 2))"
    by (simp add: two_snapshots_def fraction_def snapshot_event_def)
  have "currentAircraft two_snapshots 15
          = interpolate_aircraft [sample_aircraft ''AC1'' 2000 10] [sample_aircraft ''AC1'' 1000 350]
              (Num (- (1 / 2)))"
    using currentAircraft_interpolating[of two_snapshots 15 1 0
        "[sample_aircraft ''AC1'' 2000 10]" "[sample_aircraft ''AC1'' 1000 350]"] b f
    by (simp add: two_snapshots_def snapshot_event_def)
  also have "\<dots> = [sample_aircraft ''AC1'' 2500 20]"
    by (simp add: interpolate_aircraft_def new_Map_def interpolate_one_def map_get_def
        sample_aircraft_def interpolateAngle_def jgt_def trunc_def)
  finally have ca: "currentAircraft two_snapshots 15 = [sample_aircraft ''AC1'' 2500 20]" .
  have l: "aircraft_or_empty (last two_snapshots) = [sample_aircraft ''AC1'' 2000 10]"
    by (simp add: two_snapshots_def aircraft_or_empty_def snapshot_event_def)
  have ne: "sample_aircraft ''AC1'' 2500 20 \<noteq> sample_aircraft ''AC1'' 2000 10"
    by (simp add: sample_aircraft_def)
  have "currentTime (seek 15 (loaded late_decision_log)) = 15"
    by (simp add: seek_def loaded_eq maxTime_two)
  moreover have "snapshots (events (seek 15 (loaded late_decision_log))) = two_snapshots"
    by (simp add: seek_def loaded_eq snaps_late)
  ultimately show ?thesis using b ca l ne by simp
qed

section \<open>The playback clock\<close>

lemma tick_not_playing: "\<not> playing s \<Longrightarrow> tick now s = s"
  by (simp add: tick_def)

lemma playing_pause: "\<not> playing (pause s)"
  by (simp add: pause_def cancelAnimationFrame_def Let_def split: option.splits)

lemma running_at_2x_eq:
  "running_at_2x = initial_replay\<lparr>loading := False, events := short_log, playbackSpeed := 2,
      playing := True, lastRealTime := Some 0, frame_requests := [1], next_handle := 2,
      animationFrame := Some 1\<rparr>"
proof -
  have m: "maxTime short_log = 1"
    by (simp add: short_log_def maxTime_def game_time_or_0_def snapshot_event_def)
  show ?thesis
    by (simp add: running_at_2x_def play_def handleKeydown_def loaded_eq tick_def m
        requestAnimationFrame_def initial_replay_def Let_def)
qed

text \<open>
  C9. A call of \<^verbatim>\<open>tick\<close> in a state that is not playing changes nothing: the cursor,
  the recorded clock value and the playing flag stay, and no frame is requested. After
  \<^verbatim>\<open>pause\<close> the page is not playing, so a late callback is without effect.
\<close>

theorem stray_tick_is_noop:
  assumes "\<not> playing s"
  shows "tick now s = s
       \<and> currentTime (tick now s) = currentTime s
       \<and> lastRealTime (tick now s) = lastRealTime s
       \<and> playing (tick now s) = playing s
       \<and> frame_requests (tick now s) = frame_requests s
       \<and> \<not> playing (pause s') \<and> tick now (pause s') = pause s'"
  using assms tick_not_playing[of s now] playing_pause[of s'] tick_not_playing[OF playing_pause, of now s']
  by simp

theorem stray_tick_is_noop_witness:
  "\<not> playing (pause running_at_2x)
   \<and> currentTime (tick 1000 (pause running_at_2x)) = 0
   \<and> frame_requests (tick 1000 (pause running_at_2x)) = []
   \<and> lastRealTime (tick 1000 (pause running_at_2x)) = Some 0"
proof -
  have p: "pause running_at_2x = initial_replay\<lparr>loading := False, events := short_log,
      playbackSpeed := 2, playing := False, lastRealTime := Some 0, frame_requests := [],
      next_handle := 2, animationFrame := None\<rparr>"
    by (simp add: running_at_2x_eq pause_def cancelAnimationFrame_def initial_replay_def Let_def)
  have h: "\<not> playing (pause running_at_2x)" unfolding p by simp
  note inst = stray_tick_is_noop[OF h, of 1000]
  then have "tick 1000 (pause running_at_2x) = pause running_at_2x" by simp
  then show ?thesis using h unfolding p by (simp add: initial_replay_def)
qed

text \<open>What a tick does while the page is playing and a clock value is recorded.\<close>

lemma tick_advances_cursor:
  assumes "playing s" "lastRealTime s = Some prev"
  shows "currentTime (tick now s)
           = min (currentTime s + (now - prev) / 1000 * playbackSpeed s) (maxTime (events s))
       \<and> lastRealTime (tick now s) = Some now
       \<and> playing (tick now s) = (currentTime (tick now s) < maxTime (events s))"
  using assms
  by (simp add: tick_def Let_def requestAnimationFrame_def pause_def cancelAnimationFrame_def
      split: option.splits)

text \<open>
  C7. The claim: a tick while running moves the cursor to
  \<open>min (cursor + elapsed * speed) max_time\<close>, records the clock value, and when the cursor
  reaches \<open>max_time\<close> the clock stops and no further tick is scheduled. The page at speed
  \<open>2\<close>, cursor \<open>0\<close>, a log that ends at time \<open>1\<close>, and a frame that runs one second
  after \<^verbatim>\<open>play\<close>: the cursor is clamped to \<open>1\<close>, the clock value is recorded and
  \<^verbatim>\<open>pause\<close> has stopped the page, but the tick goes on after \<^verbatim>\<open>pause\<close> and
  requests one more frame: the handle \<open>2\<close> is pending and stored.
\<close>

theorem tick_at_end_requests_another_frame:
  "playing running_at_2x \<and> lastRealTime running_at_2x = Some 0 \<and> currentTime running_at_2x = 0
   \<and> playbackSpeed running_at_2x = 2 \<and> maxTime (events running_at_2x) = 1
   \<and> frame_requests running_at_2x = [1]
   \<and> currentTime (run_frame 1000 running_at_2x) = 1
   \<and> lastRealTime (run_frame 1000 running_at_2x) = Some 1000
   \<and> \<not> playing (run_frame 1000 running_at_2x)
   \<and> frame_requests (run_frame 1000 running_at_2x) = [2]
   \<and> animationFrame (run_frame 1000 running_at_2x) = Some 2"
proof -
  have m: "maxTime short_log = 1"
    by (simp add: short_log_def maxTime_def game_time_or_0_def snapshot_event_def)
  show ?thesis
    by (simp add: running_at_2x_eq run_frame_def tick_def m requestAnimationFrame_def pause_def
        cancelAnimationFrame_def initial_replay_def Let_def)
qed

section \<open>Seeking and speed keys\<close>

lemma fold_max_ge: "(a::real) \<le> fold max xs a"
proof (induction xs arbitrary: a)
  case Nil
  show ?case by simp
next
  case (Cons x xs)
  have "a \<le> max x a" by simp
  also have "\<dots> \<le> fold max xs (max x a)" by (rule Cons.IH)
  finally show ?case by simp
qed

lemma maxTime_nonneg:
  assumes "\<forall>e\<in>set evs. \<forall>x. game_time e = Some x \<longrightarrow> 0 \<le> x"
  shows "0 \<le> maxTime evs"
proof (cases evs)
  case Nil
  then show ?thesis by (simp add: maxTime_def)
next
  case (Cons e es)
  have "0 \<le> game_time_or_0 e" using assms Cons by (auto simp: game_time_or_0_def split: option.splits)
  also have "\<dots> \<le> fold max (map game_time_or_0 es) (game_time_or_0 e)" by (rule fold_max_ge)
  finally show ?thesis using Cons by (simp add: maxTime_def)
qed

text \<open>
  C8. With no negative \<^verbatim>\<open>game_time\<close> in the log: \<^verbatim>\<open>seek\<close> to a time below \<open>0\<close>
  sets the cursor to \<open>0\<close>, to a time above \<^verbatim>\<open>maxTime\<close> sets it to \<^verbatim>\<open>maxTime\<close>, to a
  time in between sets it to that time; it changes nothing else, in particular not the
  playing flag, and has no failing case. The keys \<^verbatim>\<open>+\<close> and \<^verbatim>\<open>=\<close> set the speed to
  \<open>min (speed * 2) 10\<close> and the key \<^verbatim>\<open>-\<close> to \<open>max (speed / 2) 0.5\<close>, and change
  nothing else.
\<close>

theorem seek_and_speed_clamped:
  assumes "\<forall>e\<in>set (events s). \<forall>x. game_time e = Some x \<longrightarrow> 0 \<le> x"
  shows "(t < 0 \<longrightarrow> currentTime (seek t s) = 0)
       \<and> (maxTime (events s) < t \<longrightarrow> currentTime (seek t s) = maxTime (events s))
       \<and> (0 \<le> t \<and> t \<le> maxTime (events s) \<longrightarrow> currentTime (seek t s) = t)
       \<and> seek t s = s\<lparr>currentTime := currentTime (seek t s)\<rparr>
       \<and> playing (seek t s) = playing s
       \<and> handleKeydown ''+'' n1 n2 s = s\<lparr>playbackSpeed := min (playbackSpeed s * 2) 10\<rparr>
       \<and> handleKeydown ''='' n1 n2 s = s\<lparr>playbackSpeed := min (playbackSpeed s * 2) 10\<rparr>
       \<and> handleKeydown ''-'' n1 n2 s = s\<lparr>playbackSpeed := max (playbackSpeed s / 2) (1 / 2)\<rparr>"
  using maxTime_nonneg[OF assms] by (simp add: seek_def handleKeydown_def)

theorem seek_and_speed_clamped_witness:
  "maxTime (events (loaded late_decision_log)) = 15
   \<and> currentTime (seek (- 5) (loaded late_decision_log)) = 0
   \<and> currentTime (seek 20 (loaded late_decision_log)) = 15
   \<and> currentTime (seek 7 (loaded late_decision_log)) = 7
   \<and> playbackSpeed (handleKeydown ''+'' 0 0 ((loaded late_decision_log)\<lparr>playbackSpeed := 8\<rparr>)) = 10
   \<and> playbackSpeed (handleKeydown ''-'' 0 0 ((loaded late_decision_log)\<lparr>playbackSpeed := 1 / 2\<rparr>)) = 1 / 2"
proof -
  have h: "\<forall>e\<in>set (events (loaded late_decision_log)). \<forall>x. game_time e = Some x \<longrightarrow> 0 \<le> x"
    by (simp add: loaded_eq late_decision_log_def two_snapshots_def snapshot_event_def plain_event_def)
  have h8: "\<forall>e\<in>set (events ((loaded late_decision_log)\<lparr>playbackSpeed := 8\<rparr>)). \<forall>x. game_time e = Some x \<longrightarrow> 0 \<le> x"
    using h by simp
  have h12: "\<forall>e\<in>set (events ((loaded late_decision_log)\<lparr>playbackSpeed := 1 / 2\<rparr>)). \<forall>x. game_time e = Some x \<longrightarrow> 0 \<le> x"
    using h by simp
  have m: "maxTime (events (loaded late_decision_log)) = 15" by (simp add: loaded_eq maxTime_two)
  show ?thesis
    using m seek_and_speed_clamped[OF h, of "- 5"] seek_and_speed_clamped[OF h, of 20]
      seek_and_speed_clamped[OF h, of 7]
      seek_and_speed_clamped[OF h8, of 0 0 0] seek_and_speed_clamped[OF h12, of 0 0 0]
    by simp
qed

section \<open>Loading the events\<close>

text \<open>
  C2, as claimed, fails: the page, in its initial state, loads a list with an event
  without \<^verbatim>\<open>event_type\<close> and a snapshot without \<^verbatim>\<open>game_time\<close> as it is, and
  reports no error.
\<close>

theorem load_accepts_malformed_events:
  "event_type (malformed_log ! 0) = None
   \<and> event_type (malformed_log ! 1) = Some ''state_snapshot'' \<and> game_time (malformed_log ! 1) = None
   \<and> error (fetchEvents (Response True ''OK'' (JsonData (Some malformed_log))) initial_replay) = None
   \<and> events (fetchEvents (Response True ''OK'' (JsonData (Some malformed_log))) initial_replay)
       = malformed_log"
  by (simp add: malformed_log_def plain_event_def fetchEvents_def caught_def initial_replay_def)

lemma load_error_free_iff:
  "(error (fetchEvents outcome s) = None) = (\<exists>st d. outcome = Response True st (JsonData d))"
proof (cases outcome)
  case (Rejected e)
  then show ?thesis by (simp add: fetchEvents_def caught_def Let_def)
next
  case (Response ok st b)
  then show ?thesis by (cases b; cases ok) (simp_all add: fetchEvents_def caught_def Let_def)
qed

lemma failed_load_from_initial_state:
  "error (fetchEvents outcome initial_replay) \<noteq> None
   \<longrightarrow> events (fetchEvents outcome initial_replay) = events initial_replay"
proof (cases outcome)
  case (Rejected e)
  then show ?thesis by (simp add: fetchEvents_def caught_def initial_replay_def Let_def)
next
  case (Response ok st b)
  then show ?thesis by (cases b; cases ok) (simp_all add: fetchEvents_def caught_def initial_replay_def Let_def)
qed

text \<open>
  C2, amended. \<^verbatim>\<open>fetchEvents\<close> does not look into the events. A response that is ok and
  whose body parses to a value other than \<^verbatim>\<open>null\<close> makes its list of events the list of
  the page, as it is (the empty list when the body has none), and reports no error. The
  load fails exactly when the request is rejected, the response is not ok, the body does
  not parse or the body is \<^verbatim>\<open>null\<close>; then the error message is set and the list of the
  page is empty, never a partial list. The page loads from its initial state, whose list
  is empty, so a failed load leaves the list that was shown before unchanged.
\<close>

theorem load_without_validation:
  "fetchEvents (Response True st (JsonData (Some raw))) s
     = s\<lparr>loading := False, error := None, events := raw\<rparr>
   \<and> fetchEvents (Response True st (JsonData None)) s
     = s\<lparr>loading := False, error := None, events := []\<rparr>
   \<and> fetchEvents (Response True st (JsonNull m)) s
     = s\<lparr>loading := False, error := Some m, events := []\<rparr>
   \<and> fetchEvents (Response True st (JsonThrows e)) s
     = s\<lparr>loading := False, error := Some (message e), events := []\<rparr>
   \<and> fetchEvents (Response False st b) s
     = s\<lparr>loading := False, error := Some (''Failed to load session: '' @ st), events := []\<rparr>
   \<and> fetchEvents (Rejected e) s
     = s\<lparr>loading := False, error := Some (message e), events := []\<rparr>
   \<and> (error (fetchEvents outcome s) = None) = (\<exists>st d. outcome = Response True st (JsonData d))
   \<and> (error (fetchEvents outcome initial_replay) \<noteq> None
        \<longrightarrow> events (fetchEvents outcome initial_replay) = events initial_replay)"
  using load_error_free_iff[of outcome s] failed_load_from_initial_state[of outcome]
  by (simp add: fetchEvents_def caught_def)

theorem load_without_validation_witness:
  "error (fetchEvents (Response True ''OK'' (JsonNull ''data is null'')) initial_replay)
     = Some ''data is null''
   \<and> events (fetchEvents (Response True ''OK'' (JsonNull ''data is null'')) initial_replay) = []
   \<and> events initial_replay = []
   \<and> error (fetchEvents (Response True ''OK'' (JsonData (Some malformed_log))) initial_replay) = None"
  using load_without_validation[where st = "''OK''" and raw = malformed_log
      and s = initial_replay and m = "''data is null''"
      and outcome = "Response True ''OK'' (JsonNull ''data is null'')"]
  by (simp add: initial_replay_def)

end
